theory Spec2Isabelle
  imports Main "HOL-Library.Word"
begin

unbundle bit_operations_syntax

section \<open>dhcpcd: applying a lease to the system (configure.c)\<close>

text \<open>
  A shallow embedding of \<^verbatim>\<open>configure.c\<close>. A C string is modelled by the list of its
  bytes before the terminating NUL, a nullable pointer by an \<open>option\<close>, a linked list by a
  list (the null list pointer is the empty list). An \<^verbatim>\<open>in_addr\<close> is the 32-bit word of
  its \<^verbatim>\<open>s_addr\<close>, read most significant octet first; the code only compares such words,
  tests them against zero and the all-ones word, and intersects them, which does not
  depend on byte order. Calls to \<^verbatim>\<open>logger\<close> are not modelled.
\<close>

subsection \<open>Info-file escaping: cleanmetas\<close>

definition squote :: char where
  "squote = CHR 0x27"

definition backslash :: char where
  "backslash = CHR 0x5C"

text \<open>
  The \<^verbatim>\<open>do ... while (*cstr++)\<close> loop of \<^verbatim>\<open>cleanmetas\<close>. The second argument holds
  the bytes stored through \<^verbatim>\<open>b\<close> so far. The loop body also runs on the terminating NUL
  (the empty list here), which it copies; that byte ends the C string in the buffer and
  is counted by \<open>cleanmetas\<close> below rather than kept.
\<close>

fun cleanmetas_loop :: "string \<Rightarrow> string \<Rightarrow> string" where
  "cleanmetas_loop [] b = b"
| "cleanmetas_loop (c # cstr) b =
     (if of_char c = (39::nat)
      then cleanmetas_loop cstr (b @ [squote, backslash, squote, squote])
      else cleanmetas_loop cstr (b @ [c]))"

definition cleanmetas_bufsize :: nat where
  "cleanmetas_bufsize = 1024"

text \<open>
  \<^verbatim>\<open>cleanmetas\<close>: a null or empty argument gives the empty string. Otherwise the loop
  stores the escaped bytes, the copied NUL and one more NUL into the static buffer of
  1024 bytes without checking its size; a store past the buffer is undefined behaviour
  in C and is the result \<open>None\<close> here.
\<close>

definition cleanmetas :: "string option \<Rightarrow> string option" where
  "cleanmetas cstr =
     (case cstr of
        None \<Rightarrow> Some []
      | Some s \<Rightarrow>
          if length s = 0 then Some []
          else let b = cleanmetas_loop s [] in
            if length b + 2 \<le> cleanmetas_bufsize then Some b else None)"

subsection \<open>Reading a word back the way a shell does\<close>




subsection \<open>Data model\<close>

type_synonym in_addr = "32 word"

record route_t =
  destination :: in_addr
  route_netmask :: in_addr
  gateway :: in_addr

record fqdn_t =
  flags :: "8 word"
  r1 :: "8 word"
  r2 :: "8 word"
  fqdn_name :: string

text \<open>The lease, \<^verbatim>\<open>dhcp_t\<close>. The field \<^verbatim>\<open>mtu\<close> is \<open>lease_mtu\<close> here.\<close>

record dhcp_t =
  address :: in_addr
  netmask :: in_addr
  broadcast :: in_addr
  lease_mtu :: "16 word"
  routes :: "route_t list"
  hostname :: "string option"
  dnsdomain :: "string option"
  dnssearch :: "string option"
  dnsservers :: "in_addr list"
  fqdn :: "fqdn_t option"
  ntpservers :: "in_addr list"
  nisdomain :: "string option"
  nisservers :: "in_addr list"
  rootpath :: "string option"
  serveraddress :: in_addr
  servername :: string
  leasetime :: "32 word"
  renewaltime :: "32 word"
  rebindtime :: "32 word"

record interface_t =
  name :: string
  hwaddr :: "8 word list"
  infofile :: string
  previous_address :: in_addr
  previous_netmask :: in_addr
  previous_routes :: "route_t list"
  mtu :: "16 word"
  previous_mtu :: "16 word"

record options_t =
  classid :: string
  clientid :: string
  script :: "string option"
  metric :: int
  dogateway :: bool
  domtu :: bool
  dodns :: bool
  dontp :: bool
  donis :: bool
  dohostname :: bool

subsection \<open>The calls the code makes, and what they answer\<close>

text \<open>
  Every call that leaves \<^verbatim>\<open>configure.c\<close> is recorded in a trace, in order, with the
  value it returned where the code reads that value. \<open>Exec_script\<close> records a call of
  \<^verbatim>\<open>exec_script\<close>, made on entry and before any of its checks; it starts no process.
  \<open>Exec_cmd\<close> records a child process that \<^verbatim>\<open>exec_cmd\<close> forked, with its command and
  the arguments after \<^verbatim>\<open>argv[0]\<close>: only this event is a program being run.
\<close>

datatype event =
    Del_route string route_t int
  | Add_route string route_t int int
  | Set_mtu string "16 word" int
  | Add_address string in_addr in_addr in_addr int int
  | Del_address string in_addr in_addr
  | Exec_script "string option" "string option" string
  | Exec_cmd string "string list"
  | Fopen string string bool
  | Popen string "string option"
  | Res_init
  | Sethostname string
  | Setdomainname string

text \<open>
  The surroundings of the code: the constants and switches of the build (\<^verbatim>\<open>pathnames.h\<close>,
  \<^verbatim>\<open>config.h\<close>; a macro that may be undefined is an \<open>option\<close>), and the answers of the
  kernel, the C library and \<^verbatim>\<open>interface.c\<close>. The answers of \<^verbatim>\<open>add_address\<close>,
  \<^verbatim>\<open>add_route\<close>, \<^verbatim>\<open>set_mtu\<close> and \<^verbatim>\<open>fork\<close> may depend on every call made before, so
  they take the trace so far. \<open>add_address_res\<close> gives the return value and \<^verbatim>\<open>errno\<close>;
  \<open>fopen_errno\<close> gives \<^verbatim>\<open>errno\<close> for a path and a mode, 0 for success.
  \<open>alloca_slots e k\<close> is the number of pointers that fit the block \<^verbatim>\<open>alloca\<close> really
  reserves when asked for \<open>k\<close> of them (an implementation rounds the request up; the
  identity is an \<^verbatim>\<open>alloca\<close> that reserves exactly what it is asked for).
\<close>

record env =
  ENABLE_INFO :: bool
  ENABLE_NTP :: bool
  ENABLE_NIS :: bool
  LINUX :: bool
  CHAR_SIGNED :: bool
  PATH_MAX :: nat
  HOSTNAME_MAX_LEN :: nat
  alloca_slots :: "nat \<Rightarrow> nat"
  DEFAULT_SCRIPT :: string
  RESOLVCONF :: "string option"
  RESOLVFILE :: string
  NTPFILE :: "string option"
  NTPDRIFTFILE :: string
  NTPLOGFILE :: string
  NTPSERVICE :: "string option"
  NTPRESTARTARGS :: string
  OPENNTPFILE :: "string option"
  OPENNTPSERVICE :: "string option"
  OPENNTPRESTARTARGS :: string
  NISFILE :: string
  NISSERVICE :: string
  NISRESTARTARGS :: string
  add_address_res :: "event list \<Rightarrow> string \<Rightarrow> in_addr \<Rightarrow> in_addr \<Rightarrow> in_addr \<Rightarrow> int \<times> int"
  add_route_res :: "event list \<Rightarrow> string \<Rightarrow> route_t \<Rightarrow> int \<Rightarrow> int"
  set_mtu_res :: "event list \<Rightarrow> string \<Rightarrow> 16 word \<Rightarrow> int"
  fork_ok :: "event list \<Rightarrow> bool"
  stat_ok :: "string \<Rightarrow> bool"
  fopen_errno :: "string \<Rightarrow> string \<Rightarrow> int"
  popen_ok :: "string \<Rightarrow> bool"
  gethostbyaddr_res :: "string \<Rightarrow> string option"
  gethostname_res :: string
  hwaddr_ntoa :: "8 word list \<Rightarrow> string"

definition ENOENT :: int where
  "ENOENT = 2"

definition EEXIST :: int where
  "EEXIST = 17"

text \<open>The state outside the process: the text files by path, and the trace.\<close>

record world =
  files :: "string \<Rightarrow> string option"
  trace :: "event list"

definition emit :: "event \<Rightarrow> world \<Rightarrow> world" where
  "emit ev w = w\<lparr>trace := trace w @ [ev]\<rparr>"

subsection \<open>Printing numbers and addresses\<close>

definition digit_char :: "nat \<Rightarrow> char" where
  "digit_char d = char_of (48 + d)"

fun decimal :: "nat \<Rightarrow> string" where
  "decimal n = (if n < 10 then [digit_char n] else decimal (n div 10) @ [digit_char (n mod 10)])"

declare decimal.simps [simp del]

text \<open>\<^verbatim>\<open>inet_ntoa\<close> of the C library: the four octets in dotted decimal.\<close>

definition inet_ntoa :: "in_addr \<Rightarrow> string" where
  "inet_ntoa a =
     decimal (unat (drop_bit 24 a)) @ ''.'' @
     decimal (unat (drop_bit 16 a AND 255)) @ ''.'' @
     decimal (unat (drop_bit 8 a AND 255)) @ ''.'' @
     decimal (unat (a AND 255))"

subsection \<open>Spawning: exec_cmd and exec_script\<close>

text \<open>
  \<^verbatim>\<open>exec_cmd (cmd, args, ...)\<close>, with the variable arguments before the closing null in
  \<open>va\<close>. The first loop sets \<open>n\<close> to their number plus one and \<^verbatim>\<open>alloca\<close> is asked for
  \<open>n + 1\<close> pointers; the second loop then stores \<^verbatim>\<open>cmd\<close>, \<^verbatim>\<open>args\<close>, the variable
  arguments and the closing null, which lands at index \<open>n + 1\<close>, one past what was
  asked for. When the block has no room for it the store is outside the block, which
  is undefined in C and \<open>None\<close> here. (The guard on \<^verbatim>\<open>alloca\<close> returning null never
  fires: \<^verbatim>\<open>alloca\<close> does not report failure.) After that \<^verbatim>\<open>exec_cmd\<close> forks; the
  child runs the command with \<^verbatim>\<open>argv\<close>, which ends at its first null, and the parent
  does not wait and returns 0 whether or not the fork succeeded.
\<close>

definition exec_cmd ::
  "env \<Rightarrow> world \<Rightarrow> string \<Rightarrow> string option \<Rightarrow> string list \<Rightarrow> (int \<times> world) option" where
  "exec_cmd e w cmd args va =
     (let n = length va + 1 in
      if alloca_slots e (n + 1) < n + 2 then None
      else if fork_ok e (trace w)
      then Some (0, emit (Exec_cmd cmd (case args of None \<Rightarrow> [] | Some a \<Rightarrow> a # va)) w)
      else Some (0, w))"

text \<open>
  \<^verbatim>\<open>exec_script\<close>. With \<^verbatim>\<open>ENABLE_INFO\<close> the script gets the info file path and the
  token; without it, the info file path, an empty string and the token.
\<close>

definition exec_script ::
  "env \<Rightarrow> world \<Rightarrow> string option \<Rightarrow> string option \<Rightarrow> string \<Rightarrow> world option" where
  "exec_script e w0 scr info arg =
     (let w = emit (Exec_script scr info arg) w0 in
      case scr of
        None \<Rightarrow> Some w
      | Some s \<Rightarrow>
          if ENABLE_INFO e \<and> info = None then Some w
          else if \<not> stat_ok e s then Some w
          else if ENABLE_INFO e then map_option snd (exec_cmd e w s info [arg])
          else map_option snd (exec_cmd e w s info [[], arg]))"

subsection \<open>Files\<close>

definition newline :: char where
  "newline = CHR 0x0A"

text \<open>
  \<^verbatim>\<open>fopen (path, "w")\<close>: on success the file exists and is empty. \<open>fprintf\<close> appends
  text to a file opened so.
\<close>

definition fopen_w :: "env \<Rightarrow> world \<Rightarrow> string \<Rightarrow> bool \<times> world" where
  "fopen_w e w path =
     (if fopen_errno e path ''w'' = 0
      then (True, emit (Fopen path ''w'' True) (w\<lparr>files := (files w)(path \<mapsto> [])\<rparr>))
      else (False, emit (Fopen path ''w'' False) w))"

definition fprintf :: "world \<Rightarrow> string \<Rightarrow> string \<Rightarrow> world" where
  "fprintf w path txt =
     w\<lparr>files := (files w)(path \<mapsto> (case files w path of None \<Rightarrow> txt | Some old \<Rightarrow> old @ txt))\<rparr>"

text \<open>
  \<^verbatim>\<open>fopen (path, "r")\<close>: the result is \<^verbatim>\<open>errno\<close> (\<open>Inl\<close>) or the text of the file. A
  path with no file fails with \<open>ENOENT\<close>.
\<close>

definition fopen_r :: "env \<Rightarrow> world \<Rightarrow> string \<Rightarrow> (int + string) \<times> world" where
  "fopen_r e w path =
     (case files w path of
        None \<Rightarrow> (Inl ENOENT, emit (Fopen path ''r'' False) w)
      | Some txt \<Rightarrow>
          if fopen_errno e path ''r'' = 0 then (Inr txt, emit (Fopen path ''r'' True) w)
          else (Inl (fopen_errno e path ''r''), emit (Fopen path ''r'' False) w))"

text \<open>
  The successive results of \<^verbatim>\<open>fgets\<close> on a file, until it returns null: each is at
  most \<open>n\<close> bytes (the buffer size less one) and ends after a newline if one comes
  first. The second argument holds the bytes of the result being read.
\<close>

fun fgets_all :: "nat \<Rightarrow> string \<Rightarrow> string \<Rightarrow> string list" where
  "fgets_all n buf [] = (if buf = [] then [] else [buf])"
| "fgets_all n buf (c # s) =
     (if c = newline \<or> length buf + 1 \<ge> n then (buf @ [c]) # fgets_all n [] s
      else fgets_all n (buf @ [c]) s)"

text \<open>
  A buffer read as a C string: its bytes before the first NUL. (A file may hold NUL
  bytes; \<^verbatim>\<open>fgets\<close> stores them, and the string functions stop there.)
\<close>

definition c_str :: "string \<Rightarrow> string" where
  "c_str buf = takeWhile (\<lambda>c. c \<noteq> CHR 0x00) buf"

text \<open>
  \<^verbatim>\<open>strsep (&a, delims)\<close> on a C string: with \<open>a\<close> null the token is null; otherwise
  the token is the text before the first delimiter and \<open>a\<close> moves past it, or becomes
  null when there is no delimiter. The result is the token and the new \<open>a\<close>.
\<close>

definition strsep :: "string option \<Rightarrow> string \<Rightarrow> string option \<times> string option" where
  "strsep a delims =
     (case a of
        None \<Rightarrow> (None, None)
      | Some s \<Rightarrow>
          (Some (takeWhile (\<lambda>c. c \<notin> set delims) s),
           (case dropWhile (\<lambda>c. c \<notin> set delims) s of [] \<Rightarrow> None | d # r \<Rightarrow> Some r)))"

subsection \<open>The resolver file\<close>

definition generated_by :: "string \<Rightarrow> string" where
  "generated_by ifname = ''# Generated by dhcpcd for interface '' @ ifname @ [newline]"

definition resolv_text :: "string \<Rightarrow> dhcp_t \<Rightarrow> string" where
  "resolv_text ifname dhcp =
     generated_by ifname @
     (case dnssearch dhcp of
        Some s \<Rightarrow> ''search '' @ s @ [newline]
      | None \<Rightarrow> (case dnsdomain dhcp of
                   Some d \<Rightarrow> ''search '' @ d @ [newline]
                 | None \<Rightarrow> [])) @
     concat (map (\<lambda>a. ''nameserver '' @ inet_ntoa a @ [newline]) (dnsservers dhcp))"

text \<open>
  \<^verbatim>\<open>make_resolv\<close>: through the \<^verbatim>\<open>resolvconf\<close> helper when the build names one and it
  exists (its command line is cut to \<open>PATH_MAX - 1\<close> bytes by \<^verbatim>\<open>snprintf\<close>), else
  into the resolver file.
\<close>

definition make_resolv :: "env \<Rightarrow> world \<Rightarrow> string \<Rightarrow> dhcp_t \<Rightarrow> int \<times> world" where
  "make_resolv e w ifname dhcp =
     (case (case RESOLVCONF e of
              None \<Rightarrow> None
            | Some rc \<Rightarrow> if stat_ok e rc then Some rc else None) of
        Some rc \<Rightarrow>
          (let resolvconf = take (PATH_MAX e - 1) (rc @ '' -a '' @ ifname) in
           if popen_ok e resolvconf
           then (0, emit Res_init (emit (Popen resolvconf (Some (resolv_text ifname dhcp))) w))
           else (-1, emit (Popen resolvconf None) w))
      | None \<Rightarrow>
          (case fopen_w e w (RESOLVFILE e) of
             (True, w1) \<Rightarrow> (0, emit Res_init (fprintf w1 (RESOLVFILE e) (resolv_text ifname dhcp)))
           | (False, w1) \<Rightarrow> (-1, w1)))"

definition restore_resolv :: "env \<Rightarrow> world \<Rightarrow> string \<Rightarrow> world option" where
  "restore_resolv e w ifname =
     (case RESOLVCONF e of
        None \<Rightarrow> Some w
      | Some rc \<Rightarrow>
          if \<not> stat_ok e rc then Some w
          else map_option snd (exec_cmd e w rc (Some ''-d'') [ifname]))"

subsection \<open>The time-service files\<close>

text \<open>
  The \<^verbatim>\<open>while (fgets ...)\<close> loop of \<^verbatim>\<open>_make_ntp\<close> over the buffers read, with the
  counter \<^verbatim>\<open>tomatch\<close>; the result is the counter when the loop ends. A buffer, read
  as a C string, counts when its first space-separated token is \<^verbatim>\<open>server\<close> and its
  second token is the text of one of the lease's servers.
\<close>

fun ntp_scan :: "in_addr list \<Rightarrow> int \<Rightarrow> string list \<Rightarrow> int" where
  "ntp_scan servers tomatch [] = tomatch"
| "ntp_scan servers tomatch (buffer # bufs) =
     (case strsep (Some (c_str buffer)) '' '' of
        (None, a) \<Rightarrow> ntp_scan servers tomatch bufs
      | (Some token, a) \<Rightarrow>
          if token \<noteq> ''server'' then ntp_scan servers tomatch bufs
          else (case strsep a ('' '' @ [newline]) of
                  (None, a') \<Rightarrow> ntp_scan servers tomatch bufs
                | (Some token', a') \<Rightarrow>
                    (let tomatch' = (if token' \<in> set (map inet_ntoa servers)
                                     then tomatch - 1 else tomatch)
                     in if tomatch' = 0 then tomatch'
                        else ntp_scan servers tomatch' bufs)))"

definition ntp_text :: "env \<Rightarrow> string \<Rightarrow> string \<Rightarrow> dhcp_t \<Rightarrow> string" where
  "ntp_text e file ifname dhcp =
     (let ntp = (NTPFILE e = Some file) in
      generated_by ifname @
      (if ntp then ''restrict default noquery notrust nomodify'' @ [newline] @
                   ''restrict 127.0.0.1'' @ [newline]
       else []) @
      concat (map (\<lambda>a.
         (if ntp then ''restrict '' @ inet_ntoa a @ '' nomodify notrap noquery'' @ [newline]
          else []) @
         ''server '' @ inet_ntoa a @ [newline]) (ntpservers dhcp)) @
      (if ntp then ''driftfile '' @ NTPDRIFTFILE e @ [newline] @
                   ''logfile '' @ NTPLOGFILE e @ [newline]
       else []))"

text \<open>The second half of \<^verbatim>\<open>_make_ntp\<close>: writing the file.\<close>

definition make_ntp_write :: "env \<Rightarrow> world \<Rightarrow> string \<Rightarrow> string \<Rightarrow> dhcp_t \<Rightarrow> int \<times> world" where
  "make_ntp_write e w file ifname dhcp =
     (case fopen_w e w file of
        (False, w1) \<Rightarrow> (-1, w1)
      | (True, w1) \<Rightarrow> (1, fprintf w1 file (ntp_text e file ifname dhcp)))"

text \<open>
  \<^verbatim>\<open>_make_ntp\<close>: -1 on an error, 0 when the file is left as it is, 1 when it was
  written. The buffer of \<^verbatim>\<open>fgets\<close> has 1024 bytes.
\<close>

definition make_ntp_file :: "env \<Rightarrow> world \<Rightarrow> string \<Rightarrow> string \<Rightarrow> dhcp_t \<Rightarrow> int \<times> world" where
  "make_ntp_file e w file ifname dhcp =
     (let tomatch = int (length (ntpservers dhcp)) in
      case fopen_r e w file of
        (Inl err, w1) \<Rightarrow>
          if err \<noteq> ENOENT then (-1, w1) else make_ntp_write e w1 file ifname dhcp
      | (Inr txt, w1) \<Rightarrow>
          if ntp_scan (ntpservers dhcp) tomatch (fgets_all 1023 [] txt) = 0 then (0, w1)
          else make_ntp_write e w1 file ifname dhcp)"

definition make_ntp :: "env \<Rightarrow> world \<Rightarrow> string \<Rightarrow> dhcp_t \<Rightarrow> (int \<times> world) option" where
  "make_ntp e w ifname dhcp =
     (let (restart_ntp, w1) =
            (case NTPFILE e of
               None \<Rightarrow> (False, w)
             | Some f \<Rightarrow> (case make_ntp_file e w f ifname dhcp of (r, w') \<Rightarrow> (r > 0, w')));
          (restart_openntp, w2) =
            (case OPENNTPFILE e of
               None \<Rightarrow> (False, w1)
             | Some f \<Rightarrow> (case make_ntp_file e w1 f ifname dhcp of (r, w') \<Rightarrow> (r > 0, w')))
      in case (case NTPSERVICE e of
                 None \<Rightarrow> Some (0, w2)
               | Some s \<Rightarrow>
                   if restart_ntp then exec_cmd e w2 s (Some (NTPRESTARTARGS e)) []
                   else Some (0, w2)) of
           None \<Rightarrow> None
         | Some (retval, w3) \<Rightarrow>
             (case OPENNTPSERVICE e of
                None \<Rightarrow> Some (retval, w3)
              | Some os \<Rightarrow>
                  if restart_openntp \<and> (case NTPSERVICE e of
                                            None \<Rightarrow> True
                                          | Some s \<Rightarrow> s \<noteq> os \<or> \<not> restart_ntp)
                  then map_option (\<lambda>(r, w4). (retval + r, w4))
                         (exec_cmd e w3 os (Some (OPENNTPRESTARTARGS e)) [])
                  else Some (retval, w3)))"

subsection \<open>The directory-service file\<close>

definition nis_text :: "string \<Rightarrow> dhcp_t \<Rightarrow> string" where
  "nis_text ifname dhcp =
     (let prefix = (case nisdomain dhcp of
                      Some d \<Rightarrow> if nisservers dhcp \<noteq> []
                                then take 255 (''domain '' @ d @ '' server'') else []
                    | None \<Rightarrow> ''ypserver'')
      in generated_by ifname @
         (case nisdomain dhcp of
            Some d \<Rightarrow> if nisservers dhcp \<noteq> [] then []
                      else ''domain '' @ d @ '' broadcast'' @ [newline]
          | None \<Rightarrow> []) @
         concat (map (\<lambda>a. prefix @ '' '' @ inet_ntoa a @ [newline]) (nisservers dhcp)))"

definition make_nis :: "env \<Rightarrow> world \<Rightarrow> string \<Rightarrow> dhcp_t \<Rightarrow> (int \<times> world) option" where
  "make_nis e w ifname dhcp =
     (case fopen_w e w (NISFILE e) of
        (False, w1) \<Rightarrow> Some (-1, w1)
      | (True, w1) \<Rightarrow>
          (let w2 = (case nisdomain dhcp of
                       Some d \<Rightarrow> emit (Setdomainname d) w1
                     | None \<Rightarrow> w1);
               w3 = fprintf w2 (NISFILE e) (nis_text ifname dhcp)
           in map_option (\<lambda>r. (0, snd r))
                (exec_cmd e w3 (NISSERVICE e) (Some (NISRESTARTARGS e)) [])))"

subsection \<open>The info file\<close>

definition info_line :: "string \<times> string \<Rightarrow> string" where
  "info_line kv = fst kv @ ''='' @ [squote] @ snd kv @ [squote] @ [newline]"

fun join_sp :: "string list \<Rightarrow> string" where
  "join_sp [] = []"
| "join_sp [x] = x"
| "join_sp (x # y # ys) = x @ '' '' @ join_sp (y # ys)"

definition route_text :: "route_t \<Rightarrow> string" where
  "route_text r =
     inet_ntoa (destination r) @ '','' @ inet_ntoa (route_netmask r) @ '','' @
     inet_ntoa (gateway r)"

definition cleaned :: "string \<Rightarrow> string \<Rightarrow> (string \<times> string) list option" where
  "cleaned key s = map_option (\<lambda>v. [(key, v)]) (cleanmetas (Some s))"

definition cleaned_opt :: "string \<Rightarrow> string option \<Rightarrow> (string \<times> string) list option" where
  "cleaned_opt key p = (case p of None \<Rightarrow> Some [] | Some s \<Rightarrow> cleaned key s)"

definition addresses_entry :: "string \<Rightarrow> in_addr list \<Rightarrow> (string \<times> string) list option" where
  "addresses_entry key as =
     (if as = [] then Some [] else Some [(key, join_sp (map inet_ntoa as))])"

text \<open>
  The lines \<^verbatim>\<open>write_info\<close> prints, in order, each as its key and the text between the
  quotes. \<open>None\<close> when a call of \<^verbatim>\<open>cleanmetas\<close> overruns its buffer.
\<close>

definition info_entries ::
  "env \<Rightarrow> interface_t \<Rightarrow> dhcp_t \<Rightarrow> options_t \<Rightarrow> (string \<times> string) list option" where
  "info_entries e iface dhcp options =
     map_option concat (those
       [Some [(''IPADDR'', inet_ntoa (address dhcp))],
        Some [(''NETMASK'', inet_ntoa (netmask dhcp))],
        Some [(''BROADCAST'', inet_ntoa (broadcast dhcp))],
        (if lease_mtu dhcp > 0 then Some [(''MTU'', decimal (unat (lease_mtu dhcp)))]
         else Some []),
        (if routes dhcp = [] then Some []
         else Some [(''ROUTES'', join_sp (map route_text (routes dhcp)))]),
        cleaned_opt ''HOSTNAME'' (hostname dhcp),
        cleaned_opt ''DNSDOMAIN'' (dnsdomain dhcp),
        cleaned_opt ''DNSSEARCH'' (dnssearch dhcp),
        addresses_entry ''DNSSERVERS'' (dnsservers dhcp),
        (case fqdn dhcp of
           None \<Rightarrow> Some []
         | Some q \<Rightarrow> Some [(''FQDNFLAGS'', decimal (unat (flags q))),
                            (''FQDNRCODE1'', decimal (unat (r1 q))),
                            (''FQDNRCODE2'', decimal (unat (r2 q))),
                            (''FQDNHOSTNAME'', fqdn_name q)]),
        addresses_entry ''NTPSERVERS'' (ntpservers dhcp),
        cleaned_opt ''NISDOMAIN'' (nisdomain dhcp),
        addresses_entry ''NISSERVERS'' (nisservers dhcp),
        cleaned_opt ''ROOTPATH'' (rootpath dhcp),
        Some [(''DHCPSID'', inet_ntoa (serveraddress dhcp))],
        cleaned ''DHCPSNAME'' (servername dhcp),
        Some [(''LEASETIME'', decimal (unat (leasetime dhcp)))],
        Some [(''RENEWALTIME'', decimal (unat (renewaltime dhcp)))],
        Some [(''REBINDTIME'', decimal (unat (rebindtime dhcp)))],
        Some [(''INTERFACE'', name iface)],
        cleaned ''CLASSID'' (classid options),
        (if clientid options \<noteq> [] then cleaned ''CLIENTID'' (clientid options)
         else Some [(''CLIENTID'', hwaddr_ntoa e (hwaddr iface))]),
        Some [(''DHCPCHADDR'', hwaddr_ntoa e (hwaddr iface))]])"

definition write_info ::
  "env \<Rightarrow> world \<Rightarrow> interface_t \<Rightarrow> dhcp_t \<Rightarrow> options_t \<Rightarrow> (int \<times> world) option" where
  "write_info e w iface dhcp options =
     (case fopen_w e w (infofile iface) of
        (False, w1) \<Rightarrow> Some (-1, w1)
      | (True, w1) \<Rightarrow>
          (case info_entries e iface dhcp options of
             None \<Rightarrow> None
           | Some es \<Rightarrow> Some (0, fprintf w1 (infofile iface) (concat (map info_line es)))))"

subsection \<open>configure\<close>

text \<open>The comparison of two routes the code writes out: all three fields.\<close>

definition same_route :: "route_t \<Rightarrow> route_t \<Rightarrow> bool" where
  "same_route a b \<longleftrightarrow>
     destination a = destination b \<and> route_netmask a = route_netmask b \<and>
     gateway a = gateway b"

text \<open>
  "Remove old routes": the loop over \<^verbatim>\<open>iface->previous_routes\<close>. \<open>have\<close> is set when
  the lease has an address and one of its routes is the same.
\<close>

fun remove_old_routes ::
  "world \<Rightarrow> options_t \<Rightarrow> interface_t \<Rightarrow> dhcp_t \<Rightarrow> route_t list \<Rightarrow> world" where
  "remove_old_routes w options iface dhcp [] = w"
| "remove_old_routes w options iface dhcp (route # rest) =
     (let w1 =
        (if destination route \<noteq> 0 \<or> dogateway options then
           (let have = (address dhcp \<noteq> 0 \<and>
                        list_ex (\<lambda>new_route. same_route new_route route) (routes dhcp))
            in if \<not> have then emit (Del_route (name iface) route (metric options)) w
               else w)
         else w)
      in remove_old_routes w1 options iface dhcp rest)"

text \<open>"If we don't have an address, then return": the body of that branch.\<close>

definition lease_lost ::
  "env \<Rightarrow> world \<Rightarrow> options_t \<Rightarrow> interface_t \<Rightarrow> (interface_t \<times> world) option" where
  "lease_lost e w options iface =
     (let iface1 = iface\<lparr>previous_routes := []\<rparr>;
          (iface2, w2) =
            (if mtu iface1 \<noteq> 0 \<and> previous_mtu iface1 \<noteq> mtu iface1
             then (iface1\<lparr>previous_mtu := mtu iface1\<rparr>,
                   emit (Set_mtu (name iface1) (mtu iface1)
                           (set_mtu_res e (trace w) (name iface1) (mtu iface1))) w)
             else (iface1, w))
      in if previous_address iface2 \<noteq> 0 then
           (let w3 = emit (Del_address (name iface2) (previous_address iface2)
                             (previous_netmask iface2)) w2;
                iface3 = iface2\<lparr>previous_address := 0, previous_netmask := 0\<rparr>
            in case restore_resolv e w3 (name iface3) of
                 None \<Rightarrow> None
               | Some w4 \<Rightarrow>
                   map_option (Pair iface3)
                     (exec_script e w4 (script options) (Some (infofile iface3)) ''down''))
         else Some (iface2, w2))"

text \<open>"Set the MTU requested".\<close>

definition apply_mtu ::
  "env \<Rightarrow> world \<Rightarrow> options_t \<Rightarrow> interface_t \<Rightarrow> dhcp_t \<Rightarrow> interface_t \<times> world" where
  "apply_mtu e w options iface dhcp =
     (if domtu options then
        (let m = (if lease_mtu dhcp \<noteq> 0 then lease_mtu dhcp else mtu iface) in
         if m \<noteq> previous_mtu iface then
           (let rc = set_mtu_res e (trace w) (name iface) m;
                w1 = emit (Set_mtu (name iface) m rc) w
            in if rc = 0 then (iface\<lparr>previous_mtu := m\<rparr>, w1) else (iface, w1))
         else (iface, w))
      else (iface, w))"

definition INADDR_BROADCAST :: in_addr where
  "INADDR_BROADCAST = 0xffffffff"

text \<open>"On linux, we need to change the subnet route to have our metric."\<close>

definition subnet_route ::
  "env \<Rightarrow> world \<Rightarrow> options_t \<Rightarrow> interface_t \<Rightarrow> dhcp_t \<Rightarrow> world" where
  "subnet_route e w options iface dhcp =
     (if LINUX e \<and> previous_address iface \<noteq> address dhcp \<and> metric options > 0 \<and>
         netmask dhcp \<noteq> INADDR_BROADCAST
      then
        (let td = address dhcp AND netmask dhcp;
             r = \<lparr>destination = td, route_netmask = netmask dhcp, gateway = 0\<rparr>;
             w1 = emit (Add_route (name iface) r (metric options)
                          (add_route_res e (trace w) (name iface) r (metric options))) w
         in emit (Del_route (name iface) r 0) w1)
      else w)"

text \<open>
  "Remember added routes": the loop over the lease's routes. The third argument is the
  list \<^verbatim>\<open>new_routes\<close> built so far.
\<close>

fun add_new_routes ::
  "env \<Rightarrow> world \<Rightarrow> route_t list \<Rightarrow> options_t \<Rightarrow> interface_t \<Rightarrow> route_t list \<Rightarrow>
   route_t list \<times> world" where
  "add_new_routes e w new_routes options iface [] = (new_routes, w)"
| "add_new_routes e w new_routes options iface (route # rest) =
     (if destination route = 0 \<and> route_netmask route = 0 \<and> \<not> dogateway options
      then add_new_routes e w new_routes options iface rest
      else
        (let remember = add_route_res e (trace w) (name iface) route (metric options);
             w1 = emit (Add_route (name iface) route (metric options) remember) w;
             remember' =
               (if remember < 0 \<and>
                   list_ex (\<lambda>old_route. same_route old_route route) (previous_routes iface)
                then 1 else remember)
         in if remember' \<ge> 0
            then add_new_routes e w1 (new_routes @ [route]) options iface rest
            else add_new_routes e w1 new_routes options iface rest))"

text \<open>
  The comparison \<^verbatim>\<open>*dname > 32\<close> on a \<^verbatim>\<open>char\<close>, which the build makes signed or
  unsigned.
\<close>

definition char_value :: "env \<Rightarrow> char \<Rightarrow> int" where
  "char_value e c =
     (if CHAR_SIGNED e \<and> (of_char c :: nat) \<ge> 128 then int (of_char c) - 256
      else int (of_char c))"

text \<open>
  The reverse lookup: the content of \<^verbatim>\<open>newhostname\<close> after it. \<open>None\<close> when the name
  found does not fit \<^verbatim>\<open>newhostname\<close> with its terminator (a store past the array).
\<close>

definition lookup_hostname :: "env \<Rightarrow> options_t \<Rightarrow> dhcp_t \<Rightarrow> string option" where
  "lookup_hostname e options dhcp =
     (if dohostname options \<and> hostname dhcp = None then
        (case gethostbyaddr_res e (inet_ntoa (address dhcp)) of
           None \<Rightarrow> Some []
         | Some h_name \<Rightarrow>
             (let dnamel = length (takeWhile (\<lambda>c. char_value e c > 32) h_name) in
              if dnamel < HOSTNAME_MAX_LEN e then Some (take dnamel h_name) else None))
      else Some [])"

text \<open>The rest of the hostname step, from \<^verbatim>\<open>gethostname\<close> on.\<close>

definition apply_hostname :: "env \<Rightarrow> world \<Rightarrow> options_t \<Rightarrow> dhcp_t \<Rightarrow> string \<Rightarrow> world" where
  "apply_hostname e w options dhcp newhostname0 =
     (let curhostname = gethostname_res e in
      if dohostname options \<or> length curhostname = 0 \<or> curhostname = ''(none)'' \<or>
         curhostname = ''localhost''
      then
        (let newhostname = (case hostname dhcp of
                              Some h \<Rightarrow> take (HOSTNAME_MAX_LEN e - 1) h
                            | None \<Rightarrow> newhostname0)
         in if newhostname \<noteq> [] then emit (Sethostname newhostname) w else w)
      else w)"

text \<open>
  The call of \<^verbatim>\<open>add_address\<close>: whether it failed for a reason other than \<open>EEXIST\<close>,
  and the world after it.
\<close>

definition add_lease_address ::
  "env \<Rightarrow> world \<Rightarrow> interface_t \<Rightarrow> dhcp_t \<Rightarrow> bool \<times> world" where
  "add_lease_address e w iface dhcp =
     (case add_address_res e (trace w) (name iface) (address dhcp) (netmask dhcp)
             (broadcast dhcp) of
        (rc, errno) \<Rightarrow>
          (rc < 0 \<and> errno \<noteq> EEXIST,
           emit (Add_address (name iface) (address dhcp) (netmask dhcp) (broadcast dhcp)
                   rc errno) w))"

text \<open>"Now delete the old address if different", the subnet route, and the routes.\<close>

definition replace_address_and_routes ::
  "env \<Rightarrow> world \<Rightarrow> options_t \<Rightarrow> interface_t \<Rightarrow> dhcp_t \<Rightarrow> interface_t \<times> world" where
  "replace_address_and_routes e w options iface dhcp =
     (let w1 = (if previous_address iface \<noteq> address dhcp \<and> previous_address iface \<noteq> 0
                then emit (Del_address (name iface) (previous_address iface)
                             (previous_netmask iface)) w
                else w);
          w2 = subnet_route e w1 options iface dhcp
      in if routes dhcp \<noteq> [] then
           (case add_new_routes e w2 [] options iface (routes dhcp) of
              (new_routes, w3) \<Rightarrow> (iface\<lparr>previous_routes := new_routes\<rparr>, w3))
         else (iface, w2))"

text \<open>The resolver, time-service and directory-service files.\<close>

definition downstream_services ::
  "env \<Rightarrow> world \<Rightarrow> options_t \<Rightarrow> interface_t \<Rightarrow> dhcp_t \<Rightarrow> world option" where
  "downstream_services e w options iface dhcp =
     (let w1 = (if dodns options \<and> dnsservers dhcp \<noteq> []
                then snd (make_resolv e w (name iface) dhcp) else w)
      in case (if ENABLE_NTP e \<and> dontp options \<and> ntpservers dhcp \<noteq> []
               then map_option snd (make_ntp e w1 (name iface) dhcp) else Some w1) of
           None \<Rightarrow> None
         | Some w2 \<Rightarrow>
             if ENABLE_NIS e \<and> donis options \<and>
                (nisservers dhcp \<noteq> [] \<or> nisdomain dhcp \<noteq> None)
             then map_option snd (make_nis e w2 (name iface) dhcp) else Some w2)"

text \<open>The hostname step as a whole.\<close>

definition hostname_step :: "env \<Rightarrow> world \<Rightarrow> options_t \<Rightarrow> dhcp_t \<Rightarrow> world option" where
  "hostname_step e w options dhcp =
     map_option (apply_hostname e w options dhcp) (lookup_hostname e options dhcp)"

text \<open>The info file and the hook, to the final \<^verbatim>\<open>return 0\<close>.\<close>

definition info_and_hook ::
  "env \<Rightarrow> world \<Rightarrow> options_t \<Rightarrow> interface_t \<Rightarrow> dhcp_t \<Rightarrow>
   (int \<times> interface_t \<times> world) option" where
  "info_and_hook e w options iface dhcp =
     (case (if ENABLE_INFO e then map_option snd (write_info e w iface dhcp options)
            else Some w) of
        None \<Rightarrow> None
      | Some w1 \<Rightarrow>
          if previous_address iface \<noteq> address dhcp \<or> previous_netmask iface \<noteq> netmask dhcp
          then map_option
                 (\<lambda>w2. (0, iface\<lparr>previous_address := address dhcp,
                                    previous_netmask := netmask dhcp\<rparr>, w2))
                 (exec_script e w1 (script options) (Some (infofile iface)) ''new'')
          else map_option (\<lambda>w2. (0, iface, w2))
                 (exec_script e w1 (script options) (Some (infofile iface)) ''up''))"

text \<open>
  \<^verbatim>\<open>configure\<close> on arguments that are not null: the return value, the interface state
  and the world after it; \<open>None\<close> when a buffer was overrun on the way.
\<close>

definition configure_lease ::
  "env \<Rightarrow> world \<Rightarrow> options_t \<Rightarrow> interface_t \<Rightarrow> dhcp_t \<Rightarrow>
   (int \<times> interface_t \<times> world) option" where
  "configure_lease e w0 options iface0 dhcp =
     (let w1 = remove_old_routes w0 options iface0 dhcp (previous_routes iface0) in
      if address dhcp = 0 then
        map_option (\<lambda>(iface', w'). (0, iface', w')) (lease_lost e w1 options iface0)
      else
        (case apply_mtu e w1 options iface0 dhcp of
           (iface1, w2) \<Rightarrow>
             (case add_lease_address e w2 iface1 dhcp of
                (True, w3) \<Rightarrow> Some (-1, iface1, w3)
              | (False, w3) \<Rightarrow>
                  (case replace_address_and_routes e w3 options iface1 dhcp of
                     (iface2, w4) \<Rightarrow>
                       (case downstream_services e w4 options iface2 dhcp of
                          None \<Rightarrow> None
                        | Some w5 \<Rightarrow>
                            (case hostname_step e w5 options dhcp of
                               None \<Rightarrow> None
                             | Some w6 \<Rightarrow> info_and_hook e w6 options iface2 dhcp))))))"

text \<open>
  \<^verbatim>\<open>configure\<close>. A null argument gives -1 at once and nothing else happens.
\<close>

definition configure ::
  "env \<Rightarrow> world \<Rightarrow> options_t option \<Rightarrow> interface_t option \<Rightarrow> dhcp_t option \<Rightarrow>
   (int \<times> interface_t option \<times> world) option" where
  "configure e w options iface dhcp =
     (case (options, iface, dhcp) of
        (Some opts, Some ifc, Some d) \<Rightarrow>
          map_option (\<lambda>(r, ifc', w'). (r, Some ifc', w')) (configure_lease e w opts ifc d)
      | _ \<Rightarrow> Some (-1, iface, w))"

section \<open>Vocabulary of the statements\<close>

text \<open>What \<^verbatim>\<open>cleanmetas\<close> is meant to put for one byte.\<close>

definition escape_char :: "char \<Rightarrow> string" where
  "escape_char c = (if c = squote then [squote, backslash, squote, squote] else [c])"


text \<open>
  The events of the services and files downstream of the lease: none of them is a call
  into the kernel's address, route or MTU state, a hook, or a change of the hostname.
\<close>

fun quiet :: "event \<Rightarrow> bool" where
  "quiet (Exec_cmd c a) = True"
| "quiet (Fopen p m ok) = True"
| "quiet (Popen c t) = True"
| "quiet Res_init = True"
| "quiet (Setdomainname d) = True"
| "quiet _ = False"

definition quietly :: "world \<Rightarrow> world \<Rightarrow> bool" where
  "quietly w w' \<longleftrightarrow> (\<exists>evs. trace w' = trace w @ evs \<and> list_all quiet evs)"

definition grows :: "world \<Rightarrow> world \<Rightarrow> bool" where
  "grows w w' \<longleftrightarrow> (\<exists>evs. trace w' = trace w @ evs)"

text \<open>The events of one invocation: those recorded after the trace it started with.\<close>

definition new_events :: "world \<Rightarrow> world \<Rightarrow> event list" where
  "new_events w w' = drop (length (trace w)) (trace w')"

text \<open>Reading one kind of call off a trace.\<close>

definition calls :: "(event \<Rightarrow> 'a list) \<Rightarrow> event list \<Rightarrow> 'a list" where
  "calls f tr = concat (map f tr)"

definition silent :: "(event \<Rightarrow> 'a list) \<Rightarrow> bool" where
  "silent f \<longleftrightarrow> (\<forall>ev. quiet ev \<longrightarrow> f ev = [])"

fun hook_token :: "event \<Rightarrow> string list" where
  "hook_token (Exec_script s i a) = [a]"
| "hook_token _ = []"

fun add_address_call :: "event \<Rightarrow> (int \<times> int) list" where
  "add_address_call (Add_address n a m b rc er) = [(rc, er)]"
| "add_address_call _ = []"

fun add_route_call :: "event \<Rightarrow> (route_t \<times> int) list" where
  "add_route_call (Add_route n r m rc) = [(r, rc)]"
| "add_route_call _ = []"

fun del_route_call :: "event \<Rightarrow> (route_t \<times> int) list" where
  "del_route_call (Del_route n r m) = [(r, m)]"
| "del_route_call _ = []"

fun set_mtu_call :: "event \<Rightarrow> (16 word \<times> int) list" where
  "set_mtu_call (Set_mtu n m rc) = [(m, rc)]"
| "set_mtu_call _ = []"

fun sethostname_call :: "event \<Rightarrow> string list" where
  "sethostname_call (Sethostname h) = [h]"
| "sethostname_call _ = []"


text \<open>
  The events of the loop that adds the lease's routes, run after the calls \<open>tr\<close>: one
  \<open>Add_route\<close> for each route that is not a default route left out.
\<close>

fun route_loop_events ::
  "env \<Rightarrow> event list \<Rightarrow> options_t \<Rightarrow> interface_t \<Rightarrow> route_t list \<Rightarrow> event list" where
  "route_loop_events e tr opts i [] = []"
| "route_loop_events e tr opts i (r # rs) =
     (if destination r = 0 \<and> route_netmask r = 0 \<and> \<not> dogateway opts
      then route_loop_events e tr opts i rs
      else (let ev = Add_route (name i) r (metric opts)
                       (add_route_res e tr (name i) r (metric opts))
            in ev # route_loop_events e (tr @ [ev]) opts i rs))"


text \<open>The states \<^verbatim>\<open>configure\<close> passes through, named for the statements below.\<close>

definition st_removed :: "world \<Rightarrow> options_t \<Rightarrow> interface_t \<Rightarrow> dhcp_t \<Rightarrow> world" where
  "st_removed w opts i d = remove_old_routes w opts i d (previous_routes i)"

definition st_mtu ::
  "env \<Rightarrow> world \<Rightarrow> options_t \<Rightarrow> interface_t \<Rightarrow> dhcp_t \<Rightarrow> interface_t \<times> world" where
  "st_mtu e w opts i d = apply_mtu e (st_removed w opts i d) opts i d"

definition st_address ::
  "env \<Rightarrow> world \<Rightarrow> options_t \<Rightarrow> interface_t \<Rightarrow> dhcp_t \<Rightarrow> bool \<times> world" where
  "st_address e w opts i d =
     add_lease_address e (snd (st_mtu e w opts i d)) (fst (st_mtu e w opts i d)) d"

definition st_routes ::
  "env \<Rightarrow> world \<Rightarrow> options_t \<Rightarrow> interface_t \<Rightarrow> dhcp_t \<Rightarrow> interface_t \<times> world" where
  "st_routes e w opts i d =
     replace_address_and_routes e (snd (st_address e w opts i d)) opts
       (fst (st_mtu e w opts i d)) d"

definition st_services ::
  "env \<Rightarrow> world \<Rightarrow> options_t \<Rightarrow> interface_t \<Rightarrow> dhcp_t \<Rightarrow> world option" where
  "st_services e w opts i d =
     downstream_services e (snd (st_routes e w opts i d)) opts (fst (st_routes e w opts i d)) d"


text \<open>What one call of \<^verbatim>\<open>configure\<close> did and gave back.\<close>

definition run_events ::
  "env \<Rightarrow> world \<Rightarrow> options_t option \<Rightarrow> interface_t option \<Rightarrow> dhcp_t option \<Rightarrow> event list" where
  "run_events e w opts i d =
     (case configure e w opts i d of None \<Rightarrow> [] | Some (rc, i', w') \<Rightarrow> new_events w w')"

definition run_result ::
  "env \<Rightarrow> world \<Rightarrow> options_t option \<Rightarrow> interface_t option \<Rightarrow> dhcp_t option \<Rightarrow> int option" where
  "run_result e w opts i d = map_option fst (configure e w opts i d)"

definition run_iface ::
  "env \<Rightarrow> world \<Rightarrow> options_t option \<Rightarrow> interface_t option \<Rightarrow> dhcp_t option \<Rightarrow>
   interface_t option" where
  "run_iface e w opts i d =
     (case configure e w opts i d of None \<Rightarrow> None | Some (rc, i', w') \<Rightarrow> i')"

subsection \<open>A concrete machine and lease\<close>

definition r_default :: route_t where
  "r_default = \<lparr>destination = 0, route_netmask = 0, gateway = 0x0A000001\<rparr>"

definition r_lan :: route_t where
  "r_lan = \<lparr>destination = 0x0A000000, route_netmask = 0xFFFFFF00, gateway = 0\<rparr>"

definition r_far :: route_t where
  "r_far = \<lparr>destination = 0xC0A80100, route_netmask = 0xFFFFFF00, gateway = 0x0A000001\<rparr>"

text \<open>
  A Linux build with every feature but the info file, whose \<^verbatim>\<open>alloca\<close> leaves room for
  one pointer more than asked; every call succeeds, except that adding the default
  route fails (it is there already); the machine has no name for the address.
\<close>

definition env_ex :: env where
  "env_ex = \<lparr>ENABLE_INFO = False, ENABLE_NTP = True, ENABLE_NIS = True, LINUX = True,
     CHAR_SIGNED = True, PATH_MAX = 4096, HOSTNAME_MAX_LEN = 254,
     alloca_slots = (\<lambda>k. k + 1),
     DEFAULT_SCRIPT = ''/etc/dhcpcd.sh'', RESOLVCONF = None, RESOLVFILE = ''/etc/resolv.conf'',
     NTPFILE = Some ''/etc/ntp.conf'', NTPDRIFTFILE = ''/var/lib/ntp/ntp.drift'',
     NTPLOGFILE = ''/var/log/ntp.log'', NTPSERVICE = Some ''/etc/init.d/ntpd'',
     NTPRESTARTARGS = ''restart'', OPENNTPFILE = Some ''/etc/ntpd.conf'',
     OPENNTPSERVICE = Some ''/etc/init.d/ntpd'', OPENNTPRESTARTARGS = ''restart'',
     NISFILE = ''/etc/yp.conf'', NISSERVICE = ''/etc/init.d/ypbind'',
     NISRESTARTARGS = ''restart'',
     add_address_res = (\<lambda>tr n a m b. (0, 0)),
     add_route_res = (\<lambda>tr n r m. if r = r_default then -1 else 0),
     set_mtu_res = (\<lambda>tr n m. 0),
     fork_ok = (\<lambda>tr. True),
     stat_ok = (\<lambda>p. True),
     fopen_errno = (\<lambda>p m. 0),
     popen_ok = (\<lambda>c. True),
     gethostbyaddr_res = (\<lambda>a. None),
     gethostname_res = ''host'',
     hwaddr_ntoa = (\<lambda>h. ''00:16:3e:00:00:01'')\<rparr>"

definition world_ex :: world where
  "world_ex = \<lparr>files = (\<lambda>p. None), trace = []\<rparr>"

definition opts_ex :: options_t where
  "opts_ex = \<lparr>classid = ''dhcpcd'', clientid = [], script = Some ''/etc/dhcpcd.sh'',
     metric = 0, dogateway = True, domtu = True, dodns = False, dontp = False,
     donis = False, dohostname = False\<rparr>"

text \<open>The interface holds 10.0.0.5/24 from an earlier lease, with two routes.\<close>

definition iface_ex :: interface_t where
  "iface_ex = \<lparr>name = ''eth0'', hwaddr = [], infofile = ''/var/lib/dhcpcd/dhcpcd-eth0.info'',
     previous_address = 0x0A000005, previous_netmask = 0xFFFFFF00,
     previous_routes = [r_default, r_lan], mtu = 1500, previous_mtu = 1500\<rparr>"


text \<open>A renewed lease for 10.0.0.5/24 with the default route and one new route.\<close>

definition lease_ex :: dhcp_t where
  "lease_ex = \<lparr>address = 0x0A000005, netmask = 0xFFFFFF00, broadcast = 0x0A0000FF,
     lease_mtu = 0, routes = [r_default, r_far], hostname = None, dnsdomain = None,
     dnssearch = None, dnsservers = [], fqdn = None, ntpservers = [], nisdomain = None,
     nisservers = [], rootpath = None, serveraddress = 0x0A000001, servername = [],
     leasetime = 3600, renewaltime = 1800, rebindtime = 3150\<rparr>"



text \<open>Words for the statements about routes.\<close>

definition default_skipped :: "options_t \<Rightarrow> route_t \<Rightarrow> bool" where
  "default_skipped opts r \<longleftrightarrow>
     destination r = 0 \<and> route_netmask r = 0 \<and> \<not> dogateway opts"

definition subnet_remetric :: "env \<Rightarrow> options_t \<Rightarrow> interface_t \<Rightarrow> dhcp_t \<Rightarrow> bool" where
  "subnet_remetric e opts i d \<longleftrightarrow>
     LINUX e \<and> previous_address i \<noteq> address d \<and> metric opts > 0 \<and>
     netmask d \<noteq> INADDR_BROADCAST"

definition subnet_of :: "dhcp_t \<Rightarrow> route_t" where
  "subnet_of d =
     \<lparr>destination = address d AND netmask d, route_netmask = netmask d, gateway = 0\<rparr>"

text \<open>
  The calls of \<^verbatim>\<open>add_route\<close> made by the loop over the lease's routes: all of the
  invocation's, less the one of the subnet re-metric step when that step runs.
\<close>

definition loop_add_route_calls ::
  "env \<Rightarrow> options_t \<Rightarrow> interface_t \<Rightarrow> dhcp_t \<Rightarrow> event list \<Rightarrow> (route_t \<times> int) list" where
  "loop_add_route_calls e opts i d evs =
     drop (if subnet_remetric e opts i d then 1 else 0) (calls add_route_call evs)"


subsection \<open>Hook processes and buffers\<close>





text \<open>
  Conditions under which no store of \<^verbatim>\<open>configure\<close> leaves its buffer: \<^verbatim>\<open>alloca\<close>
  leaves room for one more pointer than asked, for the three sizes \<^verbatim>\<open>exec_cmd\<close> asks
  for; the name found for the address, cut at its first byte not above 32, fits
  \<^verbatim>\<open>newhostname\<close> with its terminator; and, in a build that writes the info file, the
  strings passed to \<^verbatim>\<open>cleanmetas\<close> have at most 255 bytes.
\<close>

definition argv_fits :: "env \<Rightarrow> bool" where
  "argv_fits e \<longleftrightarrow> 2 < alloca_slots e 2 \<and> 3 < alloca_slots e 3 \<and> 4 < alloca_slots e 4"

definition reverse_name_fits :: "env \<Rightarrow> options_t \<Rightarrow> dhcp_t \<Rightarrow> bool" where
  "reverse_name_fits e opts d \<longleftrightarrow>
     (if dohostname opts \<and> hostname d = None
      then (case gethostbyaddr_res e (inet_ntoa (address d)) of
              None \<Rightarrow> True
            | Some h_name \<Rightarrow>
                length (takeWhile (\<lambda>c. 32 < char_value e c) h_name) < HOSTNAME_MAX_LEN e)
      else True)"

definition info_strings_fit :: "options_t \<Rightarrow> dhcp_t \<Rightarrow> bool" where
  "info_strings_fit opts d \<longleftrightarrow>
     list_all (\<lambda>s. length s \<le> 255)
       ([classid opts, clientid opts, servername d] @
        concat (map (\<lambda>p. case p of None \<Rightarrow> [] | Some s \<Rightarrow> [s])
                  [hostname d, dnsdomain d, dnssearch d, nisdomain d, rootpath d]))"

definition no_overrun :: "env \<Rightarrow> options_t \<Rightarrow> dhcp_t \<Rightarrow> bool" where
  "no_overrun e opts d \<longleftrightarrow>
     argv_fits e \<and> reverse_name_fits e opts d \<and> (ENABLE_INFO e \<longrightarrow> info_strings_fit opts d)"







text \<open>An entry of the info file, when there is one, has no line with the key given.\<close>

definition lacks :: "string \<Rightarrow> (string \<times> string) list option \<Rightarrow> bool" where
  "lacks k x \<longleftrightarrow> (case x of None \<Rightarrow> True | Some y \<Rightarrow> k \<notin> fst ` set y)"


text \<open>
  A lease with the two time servers 192.0.2.1 and 192.0.2.2, and a machine whose
  time-service file names the first of them on two lines.
\<close>

definition lease_ntp :: dhcp_t where
  "lease_ntp = lease_ex\<lparr>ntpservers := [0xC0000201, 0xC0000202]\<rparr>"

definition world_ntp :: world where
  "world_ntp = \<lparr>files = (\<lambda>p. if p = ''/etc/ntp.conf''
       then Some (''server 192.0.2.1'' @ [newline] @ ''server 192.0.2.1'' @ [newline])
       else None),
     trace = []\<rparr>"

section \<open>Properties\<close>

subsection \<open>cleanmetas\<close>

lemma of_char_39: "(of_char c = (39::nat)) = (c = squote)"
proof -
  have "(of_char c = (39::nat)) = (of_char c = (of_char squote :: nat))"
    by (simp add: squote_def)
  then show ?thesis by (simp only: of_char_eq_iff)
qed

lemma cleanmetas_loop_eq:
  "cleanmetas_loop s b = b @ concat (map escape_char s)"
  by (induction s arbitrary: b) (simp_all add: of_char_39 escape_char_def)


lemma length_escaped_le: "length (concat (map escape_char s)) \<le> 4 * length s"
  by (induction s) (simp_all add: escape_char_def)


subsection \<open>How the trace grows\<close>

lemma calls_simps [simp]:
  "calls f [] = []"
  "calls f (ev # tr) = f ev @ calls f tr"
  "calls f (tr @ tr') = calls f tr @ calls f tr'"
  by (simp_all add: calls_def)

lemma trace_emit [simp]: "trace (emit ev w) = trace w @ [ev]"
  by (simp add: emit_def)

lemma files_emit [simp]: "files (emit ev w) = files w"
  by (simp add: emit_def)

lemma trace_fprintf [simp]: "trace (fprintf w p t) = trace w"
  by (simp add: fprintf_def)

lemma quietly_refl [simp]: "quietly w w"
  by (simp add: quietly_def)

lemma quietly_emit: "quiet ev \<Longrightarrow> quietly w w' \<Longrightarrow> quietly w (emit ev w')"
  by (auto simp: quietly_def)

lemma quietly_files: "quietly w w' \<Longrightarrow> quietly w (w'\<lparr>files := x\<rparr>)"
  by (simp add: quietly_def)

lemma quietly_fprintf: "quietly w w' \<Longrightarrow> quietly w (fprintf w' p t)"
  by (simp add: quietly_def)

lemma quietly_exec_cmd:
  "quietly w w' \<Longrightarrow> exec_cmd e w' c a v = Some (r, w'') \<Longrightarrow> quietly w w''"
  by (auto simp: exec_cmd_def Let_def quietly_emit split: if_splits)

lemma quietly_fopen_w: "quietly w w' \<Longrightarrow> quietly w (snd (fopen_w e w' p))"
  by (simp add: fopen_w_def quietly_emit quietly_files)

lemma quietly_fopen_r: "quietly w w' \<Longrightarrow> quietly w (snd (fopen_r e w' p))"
  by (simp add: fopen_r_def quietly_emit split: option.splits)

lemma quietly_make_resolv: "quietly w w' \<Longrightarrow> quietly w (snd (make_resolv e w' n d))"
  using quietly_fopen_w [of w w' e "RESOLVFILE e"]
  by (auto simp: make_resolv_def Let_def quietly_emit quietly_fprintf
      split: option.splits prod.splits bool.splits)

lemma quietly_restore_resolv:
  "quietly w w' \<Longrightarrow> restore_resolv e w' n = Some w'' \<Longrightarrow> quietly w w''"
  by (auto simp: restore_resolv_def split: option.splits if_splits
      elim: quietly_exec_cmd)

lemma quietly_make_ntp_write:
  "quietly w w' \<Longrightarrow> quietly w (snd (make_ntp_write e w' f n d))"
  using quietly_fopen_w [of w w' e f]
  by (auto simp: make_ntp_write_def quietly_fprintf split: prod.splits bool.splits)

lemma quietly_make_ntp_file:
  "quietly w w' \<Longrightarrow> quietly w (snd (make_ntp_file e w' f n d))"
  using quietly_fopen_r [of w w' e f]
  by (auto simp: make_ntp_file_def Let_def quietly_make_ntp_write split: prod.splits sum.splits)

lemma quietly_make_ntp:
  assumes "quietly w w'" and "make_ntp e w' n d = Some (r, w'')"
  shows "quietly w w''"
  using assms
  by (auto simp: make_ntp_def Let_def case_prod_beta quietly_make_ntp_file
      split: option.splits if_splits elim!: quietly_exec_cmd [rotated])

lemma quietly_make_nis:
  "quietly w w' \<Longrightarrow> make_nis e w' n d = Some (r, w'') \<Longrightarrow> quietly w w''"
  using quietly_fopen_w [of w w' e "NISFILE e"]
  by (auto simp: make_nis_def Let_def quietly_emit quietly_fprintf
      split: option.splits prod.splits bool.splits
      elim!: quietly_exec_cmd [rotated])

lemma quietly_write_info:
  "quietly w w' \<Longrightarrow> write_info e w' i d opts = Some (r, w'') \<Longrightarrow> quietly w w''"
  using quietly_fopen_w [of w w' e "infofile i"]
  by (auto simp: write_info_def quietly_fprintf split: prod.splits bool.splits option.splits)

lemma quietly_calls:
  "quietly w w' \<Longrightarrow> silent f \<Longrightarrow> calls f (trace w') = calls f (trace w)"
proof -
  assume "quietly w w'" and s: "silent f"
  then obtain evs where t: "trace w' = trace w @ evs" and q: "list_all quiet evs"
    by (auto simp: quietly_def)
  have "calls f evs = []"
    using q s by (induction evs) (simp_all add: silent_def)
  then show ?thesis by (simp add: t)
qed

lemma quietly_grows: "quietly w w' \<Longrightarrow> grows w w'"
  by (auto simp: quietly_def grows_def)

lemma grows_refl [simp]: "grows w w"
  by (simp add: grows_def)

lemma grows_trans: "grows w w' \<Longrightarrow> grows w' w'' \<Longrightarrow> grows w w''"
  by (auto simp: grows_def)

lemma grows_emit: "grows w w' \<Longrightarrow> grows w (emit ev w')"
  by (auto simp: grows_def)

lemma grows_new_events: "grows w w' \<Longrightarrow> trace w' = trace w @ new_events w w'"
  by (auto simp: grows_def new_events_def)

lemma calls_new_events:
  "grows w w' \<Longrightarrow> calls f (trace w') = calls f (trace w) @ xs \<Longrightarrow>
   calls f (new_events w w') = xs"
  by (auto simp: grows_def new_events_def)

lemma silent_simps [simp]:
  "silent hook_token" "silent add_address_call" "silent add_route_call"
  "silent del_route_call" "silent set_mtu_call" "silent sethostname_call"
proof -
  have "\<And>ev. quiet ev \<Longrightarrow> hook_token ev = [] \<and> add_address_call ev = [] \<and>
      add_route_call ev = [] \<and> del_route_call ev = [] \<and> set_mtu_call ev = [] \<and>
      sethostname_call ev = []"
    subgoal for ev by (cases ev) simp_all
    done
  then show "silent hook_token" "silent add_address_call" "silent add_route_call"
    "silent del_route_call" "silent set_mtu_call" "silent sethostname_call"
    by (simp_all add: silent_def)
qed



lemma exec_script_calls:
  assumes "exec_script e w s i a = Some w'" and "silent f"
  shows "calls f (trace w') = calls f (trace w) @ f (Exec_script s i a)"
proof -
  let ?w = "emit (Exec_script s i a) w"
  have "quietly ?w w'"
    using assms(1)
    by (auto simp: exec_script_def Let_def split: option.splits if_splits
        elim: quietly_exec_cmd [OF quietly_refl])
  from quietly_calls [OF this assms(2)] show ?thesis by simp
qed

lemma grows_quietly: "grows w w' \<Longrightarrow> quietly w' w'' \<Longrightarrow> grows w w''"
  using grows_trans quietly_grows by blast

lemma grows_exec_script:
  assumes "grows w w'" and "exec_script e w' s i a = Some w''"
  shows "grows w w''"
proof -
  let ?w = "emit (Exec_script s i a) w'"
  have "quietly ?w w''"
    using assms(2)
    by (auto simp: exec_script_def Let_def split: option.splits if_splits
        elim: quietly_exec_cmd [OF quietly_refl])
  then show ?thesis
    using grows_trans [OF grows_emit [OF assms(1)] quietly_grows] by blast
qed

lemma same_route_eq [simp]: "same_route a b \<longleftrightarrow> a = b"
  by (cases a, cases b) (auto simp: same_route_def)

lemma list_ex_same_route: "list_ex (\<lambda>x. x = r) rs \<longleftrightarrow> r \<in> set rs"
  by (auto simp: list_ex_iff)

text \<open>The routes of the old set whose removal the first loop requests.\<close>

lemma remove_old_routes_trace:
  "trace (remove_old_routes w opts i d rs) =
   trace w @ map (\<lambda>r. Del_route (name i) r (metric opts))
     (filter (\<lambda>r. (destination r \<noteq> 0 \<or> dogateway opts) \<and>
                   \<not> (address d \<noteq> 0 \<and> r \<in> set (routes d))) rs)"
  by (induction rs arbitrary: w) (simp_all add: Let_def list_ex_same_route)

lemma files_remove_old_routes [simp]:
  "files (remove_old_routes w opts i d rs) = files w"
  by (induction rs arbitrary: w) (simp_all add: Let_def)

lemma grows_remove_old_routes: "grows w w' \<Longrightarrow> grows w (remove_old_routes w' opts i d rs)"
  by (auto simp: grows_def remove_old_routes_trace)

lemma apply_mtu_trace:
  "trace (snd (apply_mtu e w opts i d)) =
   trace w @
   (let m = (if lease_mtu d \<noteq> 0 then lease_mtu d else mtu i) in
    if domtu opts \<and> m \<noteq> previous_mtu i
    then [Set_mtu (name i) m (set_mtu_res e (trace w) (name i) m)] else [])"
  by (simp add: apply_mtu_def Let_def)

lemma grows_apply_mtu: "grows w w' \<Longrightarrow> grows w (snd (apply_mtu e w' opts i d))"
  by (auto simp: grows_def apply_mtu_trace Let_def)

lemma subnet_route_trace:
  "trace (subnet_route e w opts i d) =
   trace w @
   (if LINUX e \<and> previous_address i \<noteq> address d \<and> metric opts > 0 \<and>
       netmask d \<noteq> INADDR_BROADCAST
    then (let r = \<lparr>destination = address d AND netmask d, route_netmask = netmask d,
                    gateway = 0\<rparr>
          in [Add_route (name i) r (metric opts) (add_route_res e (trace w) (name i) r (metric opts)),
              Del_route (name i) r 0])
    else [])"
  by (simp add: subnet_route_def Let_def)

lemma grows_subnet_route: "grows w w' \<Longrightarrow> grows w (subnet_route e w' opts i d)"
  by (auto simp: grows_def subnet_route_trace Let_def)

lemma apply_hostname_trace:
  "trace (apply_hostname e w opts d nh) =
   trace w @
   (let cur = gethostname_res e;
        new = (case hostname d of Some h \<Rightarrow> take (HOSTNAME_MAX_LEN e - 1) h | None \<Rightarrow> nh)
    in if (dohostname opts \<or> cur = [] \<or> cur = ''(none)'' \<or> cur = ''localhost'') \<and> new \<noteq> []
       then [Sethostname new] else [])"
  by (simp add: apply_hostname_def Let_def)

lemma grows_apply_hostname: "grows w w' \<Longrightarrow> grows w (apply_hostname e w' opts d nh)"
  by (auto simp: grows_def apply_hostname_trace Let_def)

text \<open>
  The second loop appends \<open>route_loop_events\<close>, and keeps a route when the call gave 0
  or more or the route is one of the old set.
\<close>

lemma add_new_routes_trace:
  "trace (snd (add_new_routes e w acc opts i rs)) =
   trace w @ route_loop_events e (trace w) opts i rs"
  by (induction rs arbitrary: w acc) (simp_all add: Let_def)

lemma add_new_routes_files [simp]:
  "files (snd (add_new_routes e w acc opts i rs)) = files w"
  by (induction rs arbitrary: w acc) (simp_all add: Let_def)

lemma add_new_routes_kept:
  "fst (add_new_routes e w acc opts i rs) =
   acc @ map fst (filter (\<lambda>(r, rc). rc \<ge> 0 \<or> r \<in> set (previous_routes i))
                    (calls add_route_call (route_loop_events e (trace w) opts i rs)))"
  by (induction rs arbitrary: w acc) (simp_all add: Let_def list_ex_same_route)

lemma route_loop_events_subjects:
  "map fst (calls add_route_call (route_loop_events e tr opts i rs)) =
   filter (\<lambda>r. \<not> (destination r = 0 \<and> route_netmask r = 0 \<and> \<not> dogateway opts)) rs"
  by (induction rs arbitrary: tr) (simp_all add: Let_def)

lemma route_loop_events_calls:
  "(\<And>n r m rc. f (Add_route n r m rc) = []) \<Longrightarrow>
   calls f (route_loop_events e tr opts i rs) = []"
  by (induction rs arbitrary: tr) (simp_all add: Let_def)

lemma grows_add_new_routes:
  "grows w w' \<Longrightarrow> grows w (snd (add_new_routes e w' acc opts i rs))"
  by (auto simp: grows_def add_new_routes_trace)



subsection \<open>The phases of configure, seen through one kind of call\<close>

lemma calls_map_none: "(\<And>x. f (g x) = []) \<Longrightarrow> calls f (map g xs) = []"
  by (induction xs) simp_all

lemma calls_make_resolv [simp]:
  "silent f \<Longrightarrow> calls f (trace (snd (make_resolv e w n d))) = calls f (trace w)"
  using quietly_calls [OF quietly_make_resolv [OF quietly_refl]] .

lemma calls_make_ntp:
  "make_ntp e w n d = Some (r, w') \<Longrightarrow> silent f \<Longrightarrow> calls f (trace w') = calls f (trace w)"
  using quietly_calls [OF quietly_make_ntp [OF quietly_refl]] .

lemma calls_make_nis:
  "make_nis e w n d = Some (r, w') \<Longrightarrow> silent f \<Longrightarrow> calls f (trace w') = calls f (trace w)"
  using quietly_calls [OF quietly_make_nis [OF quietly_refl]] .

lemma calls_restore_resolv:
  "restore_resolv e w n = Some w' \<Longrightarrow> silent f \<Longrightarrow> calls f (trace w') = calls f (trace w)"
  using quietly_calls [OF quietly_restore_resolv [OF quietly_refl]] .

lemma calls_write_info:
  "write_info e w i d opts = Some (r, w') \<Longrightarrow> silent f \<Longrightarrow>
   calls f (trace w') = calls f (trace w)"
  using quietly_calls [OF quietly_write_info [OF quietly_refl]] .

lemma grows_write_info:
  "grows w w' \<Longrightarrow> write_info e w' i d opts = Some (r, w'') \<Longrightarrow> grows w w''"
  using grows_quietly [OF _ quietly_write_info [OF quietly_refl]] .

lemma fst_apply_mtu:
  "fst (apply_mtu e w opts i d) =
   (let m = (if lease_mtu d \<noteq> 0 then lease_mtu d else mtu i) in
    if domtu opts \<and> m \<noteq> previous_mtu i \<and> set_mtu_res e (trace w) (name i) m = 0
    then i\<lparr>previous_mtu := m\<rparr> else i)"
  by (simp add: apply_mtu_def Let_def)

lemma apply_mtu_fields [simp]:
  "name (fst (apply_mtu e w opts i d)) = name i"
  "infofile (fst (apply_mtu e w opts i d)) = infofile i"
  "previous_address (fst (apply_mtu e w opts i d)) = previous_address i"
  "previous_netmask (fst (apply_mtu e w opts i d)) = previous_netmask i"
  "previous_routes (fst (apply_mtu e w opts i d)) = previous_routes i"
  "mtu (fst (apply_mtu e w opts i d)) = mtu i"
  by (simp_all add: fst_apply_mtu Let_def)

lemma calls_remove_old_routes:
  "(\<And>n r m. f (Del_route n r m) = []) \<Longrightarrow>
   calls f (trace (remove_old_routes w opts i d rs)) = calls f (trace w)"
  by (simp add: remove_old_routes_trace calls_map_none)

lemma calls_apply_mtu:
  "(\<And>n m rc. f (Set_mtu n m rc) = []) \<Longrightarrow>
   calls f (trace (snd (apply_mtu e w opts i d))) = calls f (trace w)"
  by (simp add: apply_mtu_trace Let_def)

lemma calls_subnet_route:
  "(\<And>n r m rc. f (Add_route n r m rc) = []) \<Longrightarrow> (\<And>n r m. f (Del_route n r m) = []) \<Longrightarrow>
   calls f (trace (subnet_route e w opts i d)) = calls f (trace w)"
  by (simp add: subnet_route_trace Let_def)

lemma calls_add_new_routes:
  "(\<And>n r m rc. f (Add_route n r m rc) = []) \<Longrightarrow>
   calls f (trace (snd (add_new_routes e w acc opts i rs))) = calls f (trace w)"
  by (simp add: add_new_routes_trace route_loop_events_calls)

lemma calls_apply_hostname:
  "(\<And>h. f (Sethostname h) = []) \<Longrightarrow>
   calls f (trace (apply_hostname e w opts d nh)) = calls f (trace w)"
  by (simp add: apply_hostname_trace Let_def)



subsection \<open>The stages of configure\<close>

lemma snd_add_lease_address:
  "snd (add_lease_address e w i d) =
   emit (Add_address (name i) (address d) (netmask d) (broadcast d)
           (fst (add_address_res e (trace w) (name i) (address d) (netmask d) (broadcast d)))
           (snd (add_address_res e (trace w) (name i) (address d) (netmask d) (broadcast d)))) w"
  by (simp add: add_lease_address_def case_prod_beta)


lemma grows_add_lease_address: "grows w w' \<Longrightarrow> grows w (snd (add_lease_address e w' i d))"
  by (simp add: snd_add_lease_address grows_emit)

lemma calls_add_lease_address:
  "(\<And>n a m b rc er. f (Add_address n a m b rc er) = []) \<Longrightarrow>
   calls f (trace (snd (add_lease_address e w i d))) = calls f (trace w)"
  by (simp add: snd_add_lease_address)

lemma fst_replace_address_and_routes:
  "fst (replace_address_and_routes e w opts i d) =
   (if routes d \<noteq> [] then
      i\<lparr>previous_routes := fst (add_new_routes e
            (subnet_route e
               (if previous_address i \<noteq> address d \<and> previous_address i \<noteq> 0
                then emit (Del_address (name i) (previous_address i) (previous_netmask i)) w
                else w) opts i d) [] opts i (routes d))\<rparr>
    else i)"
  by (simp add: replace_address_and_routes_def Let_def case_prod_beta)

lemma replace_address_and_routes_fields [simp]:
  "name (fst (replace_address_and_routes e w opts i d)) = name i"
  "infofile (fst (replace_address_and_routes e w opts i d)) = infofile i"
  "hwaddr (fst (replace_address_and_routes e w opts i d)) = hwaddr i"
  "previous_address (fst (replace_address_and_routes e w opts i d)) = previous_address i"
  "previous_netmask (fst (replace_address_and_routes e w opts i d)) = previous_netmask i"
  "previous_mtu (fst (replace_address_and_routes e w opts i d)) = previous_mtu i"
  "mtu (fst (replace_address_and_routes e w opts i d)) = mtu i"
  by (simp_all add: fst_replace_address_and_routes)

lemma grows_replace_address_and_routes:
  "grows w w' \<Longrightarrow> grows w (snd (replace_address_and_routes e w' opts i d))"
  by (simp add: replace_address_and_routes_def Let_def case_prod_beta
      grows_add_new_routes grows_subnet_route grows_emit)

lemma calls_replace_address_and_routes:
  "(\<And>n r m rc. f (Add_route n r m rc) = []) \<Longrightarrow> (\<And>n r m. f (Del_route n r m) = []) \<Longrightarrow>
   (\<And>n a m. f (Del_address n a m) = []) \<Longrightarrow>
   calls f (trace (snd (replace_address_and_routes e w opts i d))) = calls f (trace w)"
  by (simp add: replace_address_and_routes_def Let_def case_prod_beta
      calls_add_new_routes calls_subnet_route)

lemma quietly_downstream_services:
  assumes "quietly w w'" and "downstream_services e w' opts i d = Some w''"
  shows "quietly w w''"
proof -
  let ?w1 = "if dodns opts \<and> dnsservers d \<noteq> []
             then snd (make_resolv e w' (name i) d) else w'"
  have q1: "quietly w ?w1"
    using assms(1) by (simp add: quietly_make_resolv)
  from assms(2) obtain w2 where
    n: "(if ENABLE_NTP e \<and> dontp opts \<and> ntpservers d \<noteq> []
         then map_option snd (make_ntp e ?w1 (name i) d) else Some ?w1) = Some w2"
    and y: "(if ENABLE_NIS e \<and> donis opts \<and> (nisservers d \<noteq> [] \<or> nisdomain d \<noteq> None)
             then map_option snd (make_nis e w2 (name i) d) else Some w2) = Some w''"
    by (auto simp: downstream_services_def Let_def split: option.splits)
  have q2: "quietly w w2"
  proof (cases "ENABLE_NTP e \<and> dontp opts \<and> ntpservers d \<noteq> []")
    case True
    with n obtain r where "make_ntp e ?w1 (name i) d = Some (r, w2)" by auto
    from quietly_make_ntp [OF q1 this] show ?thesis .
  next
    case False
    with n q1 show ?thesis by auto
  qed
  show ?thesis
  proof (cases "ENABLE_NIS e \<and> donis opts \<and> (nisservers d \<noteq> [] \<or> nisdomain d \<noteq> None)")
    case True
    with y obtain r where "make_nis e w2 (name i) d = Some (r, w'')" by auto
    from quietly_make_nis [OF q2 this] show ?thesis .
  next
    case False
    with y q2 show ?thesis by auto
  qed
qed

lemma calls_downstream_services:
  "downstream_services e w opts i d = Some w' \<Longrightarrow> silent f \<Longrightarrow>
   calls f (trace w') = calls f (trace w)"
  using quietly_calls [OF quietly_downstream_services [OF quietly_refl]] .

lemma grows_downstream_services:
  "grows w w' \<Longrightarrow> downstream_services e w' opts i d = Some w'' \<Longrightarrow> grows w w''"
  using grows_quietly [OF _ quietly_downstream_services [OF quietly_refl]] .

lemma grows_hostname_step:
  "grows w w' \<Longrightarrow> hostname_step e w' opts d = Some w'' \<Longrightarrow> grows w w''"
  by (auto simp: hostname_step_def grows_apply_hostname)

lemma calls_hostname_step:
  "hostname_step e w opts d = Some w' \<Longrightarrow> (\<And>h. f (Sethostname h) = []) \<Longrightarrow>
   calls f (trace w') = calls f (trace w)"
  by (auto simp: hostname_step_def calls_apply_hostname)

text \<open>
  The last stage: the world in which \<^verbatim>\<open>exec_script\<close> is called, and what it is
  called with.
\<close>

lemma info_and_hook_Some:
  assumes "info_and_hook e w opts i d = Some (rc, i', w')"
  obtains w1 where "quietly w w1" and
    "exec_script e w1 (script opts) (Some (infofile i))
       (if previous_address i \<noteq> address d \<or> previous_netmask i \<noteq> netmask d
        then ''new'' else ''up'') = Some w'" and
    "rc = 0" and
    "i' = (if previous_address i \<noteq> address d \<or> previous_netmask i \<noteq> netmask d
           then i\<lparr>previous_address := address d, previous_netmask := netmask d\<rparr> else i)"
proof -
  from assms obtain w1 where
    w1: "(if ENABLE_INFO e then map_option snd (write_info e w i d opts) else Some w) = Some w1"
    and r: "(if previous_address i \<noteq> address d \<or> previous_netmask i \<noteq> netmask d
          then map_option
                 (\<lambda>w2. (0, i\<lparr>previous_address := address d,
                                    previous_netmask := netmask d\<rparr>, w2))
                 (exec_script e w1 (script opts) (Some (infofile i)) ''new'')
          else map_option (\<lambda>w2. (0, i, w2))
                 (exec_script e w1 (script opts) (Some (infofile i)) ''up'')) = Some (rc, i', w')"
    by (auto simp: info_and_hook_def split: option.splits)
  have q: "quietly w w1"
    using w1 by (auto split: if_splits elim: quietly_write_info [OF quietly_refl])
  from r have "exec_script e w1 (script opts) (Some (infofile i))
       (if previous_address i \<noteq> address d \<or> previous_netmask i \<noteq> netmask d
        then ''new'' else ''up'') = Some w' \<and> rc = 0 \<and>
    i' = (if previous_address i \<noteq> address d \<or> previous_netmask i \<noteq> netmask d
           then i\<lparr>previous_address := address d, previous_netmask := netmask d\<rparr> else i)"
    by (auto split: if_splits)
  with q that show ?thesis by blast
qed

lemma grows_info_and_hook:
  assumes "grows w w'" and "info_and_hook e w' opts i d = Some (rc, i', w'')"
  shows "grows w w''"
proof -
  from assms(2) obtain w1 where q: "quietly w' w1" and
    x: "exec_script e w1 (script opts) (Some (infofile i))
       (if previous_address i \<noteq> address d \<or> previous_netmask i \<noteq> netmask d
        then ''new'' else ''up'') = Some w''"
    by (rule info_and_hook_Some)
  from grows_exec_script [OF grows_quietly [OF assms(1) q] x] show ?thesis .
qed

lemma info_and_hook_calls:
  assumes "info_and_hook e w opts i d = Some (rc, i', w')" and "silent f"
  shows "calls f (trace w') = calls f (trace w) @
     f (Exec_script (script opts) (Some (infofile i))
          (if previous_address i \<noteq> address d \<or> previous_netmask i \<noteq> netmask d
           then ''new'' else ''up''))"
proof -
  from assms(1) obtain w1 where q: "quietly w w1" and
    x: "exec_script e w1 (script opts) (Some (infofile i))
       (if previous_address i \<noteq> address d \<or> previous_netmask i \<noteq> netmask d
        then ''new'' else ''up'') = Some w'"
    by (rule info_and_hook_Some)
  show ?thesis
    using exec_script_calls [OF x assms(2)] quietly_calls [OF q assms(2)] by simp
qed

lemma info_and_hook_result:
  "info_and_hook e w opts i d = Some (rc, i', w') \<Longrightarrow>
   rc = 0 \<and>
   i' = (if previous_address i \<noteq> address d \<or> previous_netmask i \<noteq> netmask d
         then i\<lparr>previous_address := address d, previous_netmask := netmask d\<rparr> else i)"
  by (erule info_and_hook_Some) simp


lemma lease_lost_Some:
  assumes "lease_lost e w opts i = Some (i', w')"
  obtains (unset) "previous_address i = 0" and
      "trace w' = trace w @
         (if mtu i \<noteq> 0 \<and> previous_mtu i \<noteq> mtu i
          then [Set_mtu (name i) (mtu i) (set_mtu_res e (trace w) (name i) (mtu i))] else [])"
  | (reset) w4 where "previous_address i \<noteq> 0" and
      "quietly
         (emit (Del_address (name i) (previous_address i) (previous_netmask i))
            (if mtu i \<noteq> 0 \<and> previous_mtu i \<noteq> mtu i
             then emit (Set_mtu (name i) (mtu i) (set_mtu_res e (trace w) (name i) (mtu i))) w
             else w)) w4" and
      "exec_script e w4 (script opts) (Some (infofile i)) ''down'' = Some w'"
proof (cases "previous_address i = 0")
  case True
  with assms have "trace w' = trace w @
         (if mtu i \<noteq> 0 \<and> previous_mtu i \<noteq> mtu i
          then [Set_mtu (name i) (mtu i) (set_mtu_res e (trace w) (name i) (mtu i))] else [])"
    by (auto simp: lease_lost_def Let_def split: if_splits)
  with True unset show ?thesis by blast
next
  case False
  let ?w3 = "emit (Del_address (name i) (previous_address i) (previous_netmask i))
            (if mtu i \<noteq> 0 \<and> previous_mtu i \<noteq> mtu i
             then emit (Set_mtu (name i) (mtu i) (set_mtu_res e (trace w) (name i) (mtu i))) w
             else w)"
  from assms False obtain w4 where r: "restore_resolv e ?w3 (name i) = Some w4"
    and x: "exec_script e w4 (script opts) (Some (infofile i)) ''down'' = Some w'"
    by (auto simp: lease_lost_def Let_def split: if_splits option.splits)
  from quietly_restore_resolv [OF quietly_refl r] have "quietly ?w3 w4" .
  with False x reset show ?thesis by blast
qed

lemma grows_lease_lost:
  assumes "grows w w'" and "lease_lost e w' opts i = Some (i', w'')"
  shows "grows w w''"
  using assms(2)
proof (cases rule: lease_lost_Some)
  case unset
  with assms(1) show ?thesis by (auto simp: grows_def)
next
  case (reset w4)
  have "grows w' w4"
    by (rule grows_quietly [OF _ reset(2)]) (auto simp: grows_def)
  from grows_exec_script [OF grows_trans [OF assms(1) this] reset(3)] show ?thesis .
qed



text \<open>The three ways through \<^verbatim>\<open>configure\<close> on arguments that are not null.\<close>

lemma configure_lease_cases:
  assumes "configure_lease e w opts i d = Some (rc, i', w')"
  obtains
    (lost) "address d = 0" and "rc = 0" and
      "lease_lost e (st_removed w opts i d) opts i = Some (i', w')"
  | (failed) "address d \<noteq> 0" and "fst (st_address e w opts i d)" and "rc = -1" and
      "i' = fst (st_mtu e w opts i d)" and "w' = snd (st_address e w opts i d)"
  | (applied) w5 w6 where "address d \<noteq> 0" and "\<not> fst (st_address e w opts i d)" and
      "st_services e w opts i d = Some w5" and
      "hostname_step e w5 opts d = Some w6" and
      "info_and_hook e w6 opts (fst (st_routes e w opts i d)) d = Some (rc, i', w')"
proof (cases "address d = 0")
  case True
  with assms have "rc = 0 \<and> lease_lost e (st_removed w opts i d) opts i = Some (i', w')"
    by (auto simp: configure_lease_def Let_def st_removed_def split: prod.splits)
  with True show ?thesis by (intro lost) simp_all
next
  case nz: False
  show ?thesis
  proof (cases "fst (st_address e w opts i d)")
    case True
    with assms nz have "rc = -1 \<and> i' = fst (st_mtu e w opts i d) \<and>
        w' = snd (st_address e w opts i d)"
      by (auto simp: configure_lease_def Let_def st_removed_def st_mtu_def st_address_def
          split: prod.splits)
    with nz True show ?thesis by (intro failed) simp_all
  next
    case False
    with assms nz have "\<exists>w5 w6. st_services e w opts i d = Some w5 \<and>
        hostname_step e w5 opts d = Some w6 \<and>
        info_and_hook e w6 opts (fst (st_routes e w opts i d)) d = Some (rc, i', w')"
      by (auto simp: configure_lease_def Let_def st_removed_def st_mtu_def st_address_def
          st_routes_def st_services_def split: prod.splits option.splits)
    with nz False show ?thesis by (auto intro: applied)
  qed
qed

lemma st_mtu_fields [simp]:
  "name (fst (st_mtu e w opts i d)) = name i"
  "infofile (fst (st_mtu e w opts i d)) = infofile i"
  "previous_address (fst (st_mtu e w opts i d)) = previous_address i"
  "previous_netmask (fst (st_mtu e w opts i d)) = previous_netmask i"
  "previous_routes (fst (st_mtu e w opts i d)) = previous_routes i"
  "mtu (fst (st_mtu e w opts i d)) = mtu i"
  by (simp_all add: st_mtu_def)

lemma st_routes_fields [simp]:
  "name (fst (st_routes e w opts i d)) = name i"
  "infofile (fst (st_routes e w opts i d)) = infofile i"
  "previous_address (fst (st_routes e w opts i d)) = previous_address i"
  "previous_netmask (fst (st_routes e w opts i d)) = previous_netmask i"
  "previous_mtu (fst (st_routes e w opts i d)) = previous_mtu (fst (st_mtu e w opts i d))"
  "mtu (fst (st_routes e w opts i d)) = mtu i"
  by (simp_all add: st_routes_def)

lemma calls_st_removed:
  "(\<And>n r m. f (Del_route n r m) = []) \<Longrightarrow>
   calls f (trace (st_removed w opts i d)) = calls f (trace w)"
  by (simp add: st_removed_def calls_remove_old_routes)

lemma calls_st_mtu:
  "(\<And>n m rc. f (Set_mtu n m rc) = []) \<Longrightarrow>
   calls f (trace (snd (st_mtu e w opts i d))) = calls f (trace (st_removed w opts i d))"
  by (simp add: st_mtu_def calls_apply_mtu)

lemma calls_st_address:
  "(\<And>n a m b rc er. f (Add_address n a m b rc er) = []) \<Longrightarrow>
   calls f (trace (snd (st_address e w opts i d))) = calls f (trace (snd (st_mtu e w opts i d)))"
  by (simp add: st_address_def calls_add_lease_address)

lemma calls_st_routes:
  "(\<And>n r m rc. f (Add_route n r m rc) = []) \<Longrightarrow> (\<And>n r m. f (Del_route n r m) = []) \<Longrightarrow>
   (\<And>n a m. f (Del_address n a m) = []) \<Longrightarrow>
   calls f (trace (snd (st_routes e w opts i d))) = calls f (trace (snd (st_address e w opts i d)))"
  by (simp add: st_routes_def calls_replace_address_and_routes)

lemma calls_st_services:
  "st_services e w opts i d = Some w5 \<Longrightarrow> silent f \<Longrightarrow>
   calls f (trace w5) = calls f (trace (snd (st_routes e w opts i d)))"
  by (simp add: st_services_def calls_downstream_services)

lemma grows_st_removed: "grows w (st_removed w opts i d)"
  by (simp add: st_removed_def grows_remove_old_routes)

lemma grows_st_address: "grows w (snd (st_address e w opts i d))"
  by (simp add: st_address_def st_mtu_def grows_add_lease_address grows_apply_mtu
      grows_st_removed)

lemma grows_st_routes: "grows w (snd (st_routes e w opts i d))"
  by (simp add: st_routes_def grows_replace_address_and_routes grows_st_address)

lemma grows_configure_lease:
  assumes "configure_lease e w opts i d = Some (rc, i', w')"
  shows "grows w w'"
  using assms
proof (cases rule: configure_lease_cases)
  case lost
  from grows_lease_lost [OF grows_st_removed lost(3)] show ?thesis .
next
  case failed
  then show ?thesis by (simp add: grows_st_address)
next
  case (applied w5 w6)
  have "grows w w5"
    using applied(3) grows_downstream_services [OF grows_st_routes]
    by (simp add: st_services_def)
  from grows_info_and_hook [OF grows_hostname_step [OF this applied(4)] applied(5)]
  show ?thesis .
qed

lemma configure_Some:
  "configure e w (Some opts) (Some i) (Some d) = Some (rc, io, w') \<longleftrightarrow>
   (\<exists>i'. io = Some i' \<and> configure_lease e w opts i d = Some (rc, i', w'))"
  by (auto simp: configure_def)

lemma grows_configure:
  "configure e w opts i d = Some (rc, io, w') \<Longrightarrow> grows w w'"
  by (auto simp: configure_def grows_configure_lease
      split: option.splits prod.splits)

lemma run_cases:
  assumes "run_result e w (Some opts) (Some i) (Some d) = Some rc"
  obtains i' w' where "configure_lease e w opts i d = Some (rc, i', w')" and
    "run_events e w (Some opts) (Some i) (Some d) = new_events w w'" and
    "run_iface e w (Some opts) (Some i) (Some d) = Some i'" and
    "trace w' = trace w @ new_events w w'"
proof -
  from assms obtain i' w' where c: "configure_lease e w opts i d = Some (rc, i', w')"
    by (auto simp: run_result_def configure_def)
  then have "run_events e w (Some opts) (Some i) (Some d) = new_events w w'"
    and "run_iface e w (Some opts) (Some i) (Some d) = Some i'"
    by (simp_all add: run_events_def run_iface_def configure_def)
  moreover have "trace w' = trace w @ new_events w w'"
    using grows_new_events [OF grows_configure_lease [OF c]] .
  ultimately show ?thesis using c that by blast
qed

lemma calls_run:
  "trace w' = trace w @ evs \<Longrightarrow> calls f (trace w') = calls f (trace w) @ xs \<Longrightarrow>
   calls f evs = xs"
  by simp



subsection \<open>When configure returns\<close>

lemma exec_cmd_returns:
  assumes "argv_fits e" and "length v \<le> 2"
  shows "\<exists>r w'. exec_cmd e w c a v = Some (r, w')"
proof -
  from assms(2) have "length v = 0 \<or> length v = 1 \<or> length v = 2" by arith
  then have "\<not> alloca_slots e (length v + 1 + 1) < length v + 1 + 2"
    using assms(1) by (auto simp: argv_fits_def eval_nat_numeral)
  then show ?thesis
    by (simp add: exec_cmd_def Let_def)
qed

lemma exec_script_returns:
  assumes "argv_fits e"
  shows "\<exists>w'. exec_script e w s i a = Some w'"
proof -
  have "\<And>w c x v. length v \<le> 2 \<Longrightarrow> \<exists>w'. map_option snd (exec_cmd e w c x v) = Some w'"
    using exec_cmd_returns [OF assms] by fastforce
  then show ?thesis
    by (simp add: exec_script_def Let_def split: option.splits)
qed

lemma restore_resolv_returns:
  assumes "argv_fits e"
  shows "\<exists>w'. restore_resolv e w n = Some w'"
proof -
  have "\<And>w c x v. length v \<le> 2 \<Longrightarrow> \<exists>w'. map_option snd (exec_cmd e w c x v) = Some w'"
    using exec_cmd_returns [OF assms] by fastforce
  then show ?thesis
    by (simp add: restore_resolv_def split: option.splits)
qed

lemma make_ntp_returns:
  assumes "argv_fits e"
  shows "\<exists>r w'. make_ntp e w n d = Some (r, w')"
proof -
  have x: "\<And>w c a. \<exists>r w'. exec_cmd e w c a [] = Some (r, w')"
    using exec_cmd_returns [OF assms, of "[]"] by simp
  obtain b1 b2 w2 where
    "make_ntp e w n d =
      (case (case NTPSERVICE e of
                 None \<Rightarrow> Some (0, w2)
               | Some s \<Rightarrow>
                   if b1 then exec_cmd e w2 s (Some (NTPRESTARTARGS e)) []
                   else Some (0, w2)) of
           None \<Rightarrow> None
         | Some (retval, w3) \<Rightarrow>
             (case OPENNTPSERVICE e of
                None \<Rightarrow> Some (retval, w3)
              | Some os \<Rightarrow>
                  if b2 \<and> (case NTPSERVICE e of
                                            None \<Rightarrow> True
                                          | Some s \<Rightarrow> s \<noteq> os \<or> \<not> b1)
                  then map_option (\<lambda>(r, w4). (retval + r, w4))
                         (exec_cmd e w3 os (Some (OPENNTPRESTARTARGS e)) [])
                  else Some (retval, w3)))"
    by (simp add: make_ntp_def Let_def case_prod_beta)
  moreover obtain r3 w3 where "(case NTPSERVICE e of
                 None \<Rightarrow> Some (0, w2)
               | Some s \<Rightarrow>
                   if b1 then exec_cmd e w2 s (Some (NTPRESTARTARGS e)) []
                   else Some (0, w2)) = Some (r3, w3)"
  proof (cases "NTPSERVICE e")
    case None
    then show ?thesis using that by simp
  next
    case (Some s)
    obtain r w' where "exec_cmd e w2 s (Some (NTPRESTARTARGS e)) [] = Some (r, w')"
      using x by blast
    with Some that show ?thesis by (cases b1) auto
  qed
  moreover have "\<exists>r w'. (case OPENNTPSERVICE e of
                None \<Rightarrow> Some (r3, w3)
              | Some os \<Rightarrow>
                  if b2 \<and> (case NTPSERVICE e of
                                            None \<Rightarrow> True
                                          | Some s \<Rightarrow> s \<noteq> os \<or> \<not> b1)
                  then map_option (\<lambda>(r, w4). (r3 + r, w4))
                         (exec_cmd e w3 os (Some (OPENNTPRESTARTARGS e)) [])
                  else Some (r3, w3)) = Some (r, w')"
  proof (cases "OPENNTPSERVICE e")
    case None
    then show ?thesis by simp
  next
    case (Some os)
    obtain r w' where "exec_cmd e w3 os (Some (OPENNTPRESTARTARGS e)) [] = Some (r, w')"
      using x by blast
    with Some show ?thesis by auto
  qed
  ultimately show ?thesis by simp
qed

lemma make_nis_returns:
  assumes "argv_fits e"
  shows "\<exists>r w'. make_nis e w n d = Some (r, w')"
proof -
  have x: "\<And>w c a. \<exists>r w'. exec_cmd e w c a [] = Some (r, w')"
    using exec_cmd_returns [OF assms, of "[]"] by simp
  obtain ok w1 where f: "fopen_w e w (NISFILE e) = (ok, w1)"
    by (cases "fopen_w e w (NISFILE e)")
  show ?thesis
  proof (cases ok)
    case False
    with f show ?thesis by (simp add: make_nis_def)
  next
    case True
    with f obtain w3 where "make_nis e w n d =
        map_option (\<lambda>r. (0, snd r)) (exec_cmd e w3 (NISSERVICE e) (Some (NISRESTARTARGS e)) [])"
      by (simp add: make_nis_def Let_def)
    moreover obtain r w' where
      "exec_cmd e w3 (NISSERVICE e) (Some (NISRESTARTARGS e)) [] = Some (r, w')"
      using x by blast
    ultimately show ?thesis by simp
  qed
qed

lemma downstream_services_returns:
  assumes "argv_fits e"
  shows "\<exists>w'. downstream_services e w opts i d = Some w'"
proof -
  let ?w1 = "if dodns opts \<and> dnsservers d \<noteq> []
             then snd (make_resolv e w (name i) d) else w"
  obtain w2 where n: "(if ENABLE_NTP e \<and> dontp opts \<and> ntpservers d \<noteq> []
         then map_option snd (make_ntp e ?w1 (name i) d) else Some ?w1) = Some w2"
    using make_ntp_returns [OF assms, of ?w1 "name i" d] by (cases "ENABLE_NTP e \<and> dontp opts \<and> ntpservers d \<noteq> []") auto
  obtain w3 where "(if ENABLE_NIS e \<and> donis opts \<and> (nisservers d \<noteq> [] \<or> nisdomain d \<noteq> None)
             then map_option snd (make_nis e w2 (name i) d) else Some w2) = Some w3"
    using make_nis_returns [OF assms, of w2 "name i" d]
    by (cases "ENABLE_NIS e \<and> donis opts \<and> (nisservers d \<noteq> [] \<or> nisdomain d \<noteq> None)") auto
  with n show ?thesis
    by (simp add: downstream_services_def Let_def)
qed

lemma lease_lost_returns:
  assumes "argv_fits e"
  shows "\<exists>i' w'. lease_lost e w opts i = Some (i', w')"
proof (cases "previous_address i = 0")
  case True
  then show ?thesis by (simp add: lease_lost_def Let_def)
next
  case False
  let ?w3 = "emit (Del_address (name i) (previous_address i) (previous_netmask i))
            (if mtu i \<noteq> 0 \<and> previous_mtu i \<noteq> mtu i
             then emit (Set_mtu (name i) (mtu i) (set_mtu_res e (trace w) (name i) (mtu i))) w
             else w)"
  obtain w4 where r: "restore_resolv e ?w3 (name i) = Some w4"
    using restore_resolv_returns [OF assms] by blast
  obtain w5 where "exec_script e w4 (script opts) (Some (infofile i)) ''down'' = Some w5"
    using exec_script_returns [OF assms] by blast
  with r False show ?thesis
    by (auto simp: lease_lost_def Let_def)
qed

lemma hostname_step_returns:
  "reverse_name_fits e opts d \<Longrightarrow> \<exists>w'. hostname_step e w opts d = Some w'"
  by (auto simp: hostname_step_def lookup_hostname_def reverse_name_fits_def Let_def
      split: option.splits if_splits)

lemma cleanmetas_returns: "length s \<le> 255 \<Longrightarrow> \<exists>v. cleanmetas (Some s) = Some v"
  using length_escaped_le [of s]
  by (simp add: cleanmetas_def cleanmetas_loop_eq cleanmetas_bufsize_def Let_def)

lemma cleaned_returns: "length s \<le> 255 \<Longrightarrow> \<exists>v. cleaned key s = Some [(key, v)]"
  using cleanmetas_returns [of s] by (auto simp: cleaned_def)

lemma cleaned_opt_returns:
  "(\<And>s. p = Some s \<Longrightarrow> length s \<le> 255) \<Longrightarrow> \<exists>y. cleaned_opt key p = Some y"
  using cleaned_returns by (cases p) (auto simp: cleaned_opt_def)

lemma addresses_entry_returns: "\<exists>y. addresses_entry key as = Some y"
  by (simp add: addresses_entry_def)

lemma info_entries_returns:
  assumes "info_strings_fit opts d"
  shows "\<exists>es. info_entries e i d opts = Some es"
proof -
  from assms have l: "length (classid opts) \<le> 255" "length (clientid opts) \<le> 255"
    "length (servername d) \<le> 255"
    "\<And>s. hostname d = Some s \<Longrightarrow> length s \<le> 255"
    "\<And>s. dnsdomain d = Some s \<Longrightarrow> length s \<le> 255"
    "\<And>s. dnssearch d = Some s \<Longrightarrow> length s \<le> 255"
    "\<And>s. nisdomain d = Some s \<Longrightarrow> length s \<le> 255"
    "\<And>s. rootpath d = Some s \<Longrightarrow> length s \<le> 255"
    by (auto simp: info_strings_fit_def)
  obtain y1 where y1: "cleaned_opt ''HOSTNAME'' (hostname d) = Some y1"
    using cleaned_opt_returns [OF l(4)] by blast
  obtain y2 where y2: "cleaned_opt ''DNSDOMAIN'' (dnsdomain d) = Some y2"
    using cleaned_opt_returns [OF l(5)] by blast
  obtain y3 where y3: "cleaned_opt ''DNSSEARCH'' (dnssearch d) = Some y3"
    using cleaned_opt_returns [OF l(6)] by blast
  obtain y4 where y4: "cleaned_opt ''NISDOMAIN'' (nisdomain d) = Some y4"
    using cleaned_opt_returns [OF l(7)] by blast
  obtain y5 where y5: "cleaned_opt ''ROOTPATH'' (rootpath d) = Some y5"
    using cleaned_opt_returns [OF l(8)] by blast
  obtain y6 where y6: "cleaned ''DHCPSNAME'' (servername d) = Some y6"
    using cleaned_returns [OF l(3)] by blast
  obtain y7 where y7: "cleaned ''CLASSID'' (classid opts) = Some y7"
    using cleaned_returns [OF l(1)] by blast
  obtain y8 where y8: "cleaned ''CLIENTID'' (clientid opts) = Some y8"
    using cleaned_returns [OF l(2)] by blast
  obtain a1 where a1: "addresses_entry ''DNSSERVERS'' (dnsservers d) = Some a1"
    using addresses_entry_returns by blast
  obtain a2 where a2: "addresses_entry ''NTPSERVERS'' (ntpservers d) = Some a2"
    using addresses_entry_returns by blast
  obtain a3 where a3: "addresses_entry ''NISSERVERS'' (nisservers d) = Some a3"
    using addresses_entry_returns by blast
  have "\<exists>m. (if lease_mtu d > 0 then Some [(''MTU'', decimal (unat (lease_mtu d)))]
         else Some []) = Some m"
    by simp
  then obtain m where m: "(if lease_mtu d > 0 then Some [(''MTU'', decimal (unat (lease_mtu d)))]
         else Some []) = Some m"
    by blast
  have "\<exists>r. (if routes d = [] then Some []
         else Some [(''ROUTES'', join_sp (map route_text (routes d)))]) = Some r"
    by simp
  then obtain r where r: "(if routes d = [] then Some []
         else Some [(''ROUTES'', join_sp (map route_text (routes d)))]) = Some r"
    by blast
  obtain q where q: "(case fqdn d of
           None \<Rightarrow> Some []
         | Some q \<Rightarrow> Some [(''FQDNFLAGS'', decimal (unat (flags q))),
                            (''FQDNRCODE1'', decimal (unat (r1 q))),
                            (''FQDNRCODE2'', decimal (unat (r2 q))),
                            (''FQDNHOSTNAME'', fqdn_name q)]) = Some q"
    by (cases "fqdn d") auto
  have "\<exists>c. (if clientid opts \<noteq> [] then cleaned ''CLIENTID'' (clientid opts)
         else Some [(''CLIENTID'', hwaddr_ntoa e (hwaddr i))]) = Some c"
    using y8 by simp
  then obtain c where c: "(if clientid opts \<noteq> [] then cleaned ''CLIENTID'' (clientid opts)
         else Some [(''CLIENTID'', hwaddr_ntoa e (hwaddr i))]) = Some c"
    by blast
  show ?thesis
    unfolding info_entries_def y1 y2 y3 y4 y5 y6 y7 a1 a2 a3 m r q c
    by simp
qed

lemma write_info_returns:
  "info_strings_fit opts d \<Longrightarrow> \<exists>r w'. write_info e w i d opts = Some (r, w')"
  using info_entries_returns [of opts d e i]
  by (auto simp: write_info_def split: prod.splits bool.splits)

lemma info_and_hook_returns:
  assumes "argv_fits e" and "ENABLE_INFO e \<longrightarrow> info_strings_fit opts d"
  shows "\<exists>rc i' w'. info_and_hook e w opts i d = Some (rc, i', w')"
proof -
  obtain w1 where w1: "(if ENABLE_INFO e then map_option snd (write_info e w i d opts)
      else Some w) = Some w1"
    using assms(2) write_info_returns [of opts d e w i]
    by (cases "ENABLE_INFO e") auto
  obtain w2 where "exec_script e w1 (script opts) (Some (infofile i))
       (if previous_address i \<noteq> address d \<or> previous_netmask i \<noteq> netmask d
        then ''new'' else ''up'') = Some w2"
    using exec_script_returns [OF assms(1)] by blast
  with w1 show ?thesis
    by (auto simp: info_and_hook_def)
qed

lemma configure_lease_returns:
  assumes "no_overrun e opts d"
  shows "\<exists>rc i' w'. configure_lease e w opts i d = Some (rc, i', w')"
proof -
  from assms have a: "argv_fits e" and h: "reverse_name_fits e opts d"
    and f: "ENABLE_INFO e \<longrightarrow> info_strings_fit opts d"
    by (simp_all add: no_overrun_def)
  show ?thesis
  proof (cases "address d = 0")
    case True
    with lease_lost_returns [OF a, of "st_removed w opts i d" opts i] show ?thesis
      by (auto simp: configure_lease_def Let_def st_removed_def)
  next
    case nz: False
    show ?thesis
    proof (cases "fst (st_address e w opts i d)")
      case True
      with nz show ?thesis
        by (auto simp: configure_lease_def Let_def st_removed_def st_mtu_def st_address_def
            split: prod.splits)
    next
      case False
      obtain w5 where s: "st_services e w opts i d = Some w5"
        using downstream_services_returns [OF a, of "snd (st_routes e w opts i d)" opts
            "fst (st_routes e w opts i d)" d]
        by (auto simp: st_services_def)
      obtain w6 where n: "hostname_step e w5 opts d = Some w6"
        using hostname_step_returns [OF h] by blast
      obtain rc i' w' where
        "info_and_hook e w6 opts (fst (st_routes e w opts i d)) d = Some (rc, i', w')"
        using info_and_hook_returns [OF a f] by blast
      with nz False s n show ?thesis
        by (auto simp: configure_lease_def Let_def st_removed_def st_mtu_def st_address_def
            st_routes_def st_services_def split: prod.splits)
    qed
  qed
qed

lemma run_returns:
  "no_overrun e opts d \<Longrightarrow> \<exists>rc. run_result e w (Some opts) (Some i) (Some d) = Some rc"
  using configure_lease_returns [of e opts d w i]
  by (auto simp: run_result_def configure_def)


subsection \<open>Hooks\<close>











lemma no_overrun_ex [simp]: "no_overrun env_ex opts_ex lease_ex"
  by (simp add: no_overrun_def argv_fits_def reverse_name_fits_def env_ex_def opts_ex_def)

lemma run_ex_result:
  "run_result env_ex world_ex (Some opts_ex) (Some iface_ex) (Some lease_ex) = Some 0"
  by code_simp









subsection \<open>Failures\<close>







subsection \<open>The MTU\<close>

lemma st_mtu_set_mtu_calls:
  "calls set_mtu_call (trace (snd (st_mtu e w opts i d))) =
   calls set_mtu_call (trace w) @
   (let m = (if lease_mtu d \<noteq> 0 then lease_mtu d else mtu i) in
    if domtu opts \<and> m \<noteq> previous_mtu i
    then [(m, set_mtu_res e (trace (st_removed w opts i d)) (name i) m)] else [])"
  by (simp add: st_mtu_def apply_mtu_trace calls_st_removed Let_def)

lemma st_mtu_previous_mtu:
  "previous_mtu (fst (st_mtu e w opts i d)) =
   (let m = (if lease_mtu d \<noteq> 0 then lease_mtu d else mtu i) in
    if domtu opts \<and> m \<noteq> previous_mtu i \<and>
       set_mtu_res e (trace (st_removed w opts i d)) (name i) m = 0
    then m else previous_mtu i)"
  by (simp add: st_mtu_def fst_apply_mtu Let_def)

lemma info_and_hook_previous_mtu:
  "info_and_hook e w opts i d = Some (rc, i', w') \<Longrightarrow> previous_mtu i' = previous_mtu i"
  by (auto dest: info_and_hook_result)

text \<open>
  What a returning call on a lease with an address does about the MTU, for every
  target.
\<close>

lemma mtu_step:
  assumes "run_result e w (Some opts) (Some i) (Some d) = Some rc" and "address d \<noteq> 0"
  shows "calls set_mtu_call (run_events e w (Some opts) (Some i) (Some d)) =
           (let m = (if lease_mtu d \<noteq> 0 then lease_mtu d else mtu i) in
            if domtu opts \<and> m \<noteq> previous_mtu i
            then [(m, set_mtu_res e (trace (st_removed w opts i d)) (name i) m)] else [])"
    and "map_option previous_mtu (run_iface e w (Some opts) (Some i) (Some d)) =
           Some (previous_mtu (fst (st_mtu e w opts i d)))"
proof -
  from assms(1) obtain i' w' where c: "configure_lease e w opts i d = Some (rc, i', w')"
    and ev: "run_events e w (Some opts) (Some i) (Some d) = new_events w w'"
    and ri: "run_iface e w (Some opts) (Some i) (Some d) = Some i'"
    and tr: "trace w' = trace w @ new_events w w'"
    by (rule run_cases)
  let ?m = "if lease_mtu d \<noteq> 0 then lease_mtu d else mtu i"
  let ?cs = "if domtu opts \<and> ?m \<noteq> previous_mtu i
    then [(?m, set_mtu_res e (trace (st_removed w opts i d)) (name i) ?m)] else []"
  from c have "calls set_mtu_call (trace w') = calls set_mtu_call (trace w) @ ?cs \<and>
      previous_mtu i' = previous_mtu (fst (st_mtu e w opts i d))"
  proof (cases rule: configure_lease_cases)
    case lost
    with assms(2) show ?thesis by simp
  next
    case failed
    then show ?thesis
      by (simp add: calls_st_address st_mtu_set_mtu_calls Let_def)
  next
    case (applied w5 w6)
    show ?thesis
      using info_and_hook_calls [OF applied(5), of set_mtu_call]
        calls_hostname_step [OF applied(4), of set_mtu_call]
        calls_st_services [OF applied(3), of set_mtu_call]
        info_and_hook_previous_mtu [OF applied(5)]
      by (simp add: calls_st_routes calls_st_address st_mtu_set_mtu_calls Let_def)
  qed
  then have "calls set_mtu_call (new_events w w') = ?cs"
    and "previous_mtu i' = previous_mtu (fst (st_mtu e w opts i d))"
    using calls_run [OF tr] by blast+
  then show "calls set_mtu_call (run_events e w (Some opts) (Some i) (Some d)) =
           (let m = (if lease_mtu d \<noteq> 0 then lease_mtu d else mtu i) in
            if domtu opts \<and> m \<noteq> previous_mtu i
            then [(m, set_mtu_res e (trace (st_removed w opts i d)) (name i) m)] else [])"
    and "map_option previous_mtu (run_iface e w (Some opts) (Some i) (Some d)) =
           Some (previous_mtu (fst (st_mtu e w opts i d)))"
    by (simp_all add: ev ri Let_def)
qed

text \<open>
  C8, as amended. A call on a lease with an address returns whenever no buffer is
  overrun. The target MTU is the lease's MTU if that is not zero and the interface's
  own MTU otherwise. Whenever the call returns: with MTU management on and a target
  that is not zero and differs from the previous MTU, \<^verbatim>\<open>set_mtu\<close> is called exactly
  once, with the target, and the target becomes the previous MTU exactly when that call
  returns 0; with MTU management off or a target equal to the previous MTU, \<^verbatim>\<open>set_mtu\<close>
  is not called and the previous MTU stays; and in both cases no call of \<^verbatim>\<open>set_mtu\<close>
  carries a zero MTU.
\<close>

theorem mtu_management:
  "(no_overrun e opts d \<longrightarrow> run_result e w (Some opts) (Some i) (Some d) \<noteq> None) \<and>
   (\<forall>rc. run_result e w (Some opts) (Some i) (Some d) = Some rc \<and> address d \<noteq> 0 \<longrightarrow>
      (domtu opts \<and> (if lease_mtu d \<noteq> 0 then lease_mtu d else mtu i) \<noteq> previous_mtu i \<and>
       (if lease_mtu d \<noteq> 0 then lease_mtu d else mtu i) \<noteq> 0 \<longrightarrow>
         map fst (calls set_mtu_call (run_events e w (Some opts) (Some i) (Some d))) =
           [if lease_mtu d \<noteq> 0 then lease_mtu d else mtu i] \<and>
         map_option previous_mtu (run_iface e w (Some opts) (Some i) (Some d)) =
           Some (if map snd (calls set_mtu_call (run_events e w (Some opts) (Some i) (Some d)))
                      = [0]
                 then (if lease_mtu d \<noteq> 0 then lease_mtu d else mtu i)
                 else previous_mtu i) \<and>
         (\<forall>c \<in> set (calls set_mtu_call (run_events e w (Some opts) (Some i) (Some d))).
            fst c \<noteq> 0)) \<and>
      (\<not> (domtu opts \<and> (if lease_mtu d \<noteq> 0 then lease_mtu d else mtu i) \<noteq> previous_mtu i) \<longrightarrow>
         calls set_mtu_call (run_events e w (Some opts) (Some i) (Some d)) = [] \<and>
         map_option previous_mtu (run_iface e w (Some opts) (Some i) (Some d)) =
           Some (previous_mtu i)))"
proof (intro conjI allI impI)
  assume "no_overrun e opts d"
  from run_returns [OF this, of w i]
  show "run_result e w (Some opts) (Some i) (Some d) \<noteq> None"
    by auto
next
  fix rc
  assume a: "run_result e w (Some opts) (Some i) (Some d) = Some rc \<and> address d \<noteq> 0"
    and b: "domtu opts \<and> (if lease_mtu d \<noteq> 0 then lease_mtu d else mtu i) \<noteq> previous_mtu i \<and>
       (if lease_mtu d \<noteq> 0 then lease_mtu d else mtu i) \<noteq> 0"
  from a have r: "run_result e w (Some opts) (Some i) (Some d) = Some rc"
    and n: "address d \<noteq> 0"
    by simp_all
  from mtu_step [OF r n] b
  show "map fst (calls set_mtu_call (run_events e w (Some opts) (Some i) (Some d))) =
           [if lease_mtu d \<noteq> 0 then lease_mtu d else mtu i]"
    and "map_option previous_mtu (run_iface e w (Some opts) (Some i) (Some d)) =
           Some (if map snd (calls set_mtu_call (run_events e w (Some opts) (Some i) (Some d)))
                      = [0]
                 then (if lease_mtu d \<noteq> 0 then lease_mtu d else mtu i)
                 else previous_mtu i)"
    and "\<forall>c \<in> set (calls set_mtu_call (run_events e w (Some opts) (Some i) (Some d))).
            fst c \<noteq> 0"
    by (auto simp: st_mtu_previous_mtu Let_def)
next
  fix rc
  assume a: "run_result e w (Some opts) (Some i) (Some d) = Some rc \<and> address d \<noteq> 0"
    and b: "\<not> (domtu opts \<and> (if lease_mtu d \<noteq> 0 then lease_mtu d else mtu i) \<noteq> previous_mtu i)"
  from a have r: "run_result e w (Some opts) (Some i) (Some d) = Some rc"
    and n: "address d \<noteq> 0"
    by simp_all
  from mtu_step [OF r n] b
  show "calls set_mtu_call (run_events e w (Some opts) (Some i) (Some d)) = []"
    and "map_option previous_mtu (run_iface e w (Some opts) (Some i) (Some d)) =
           Some (previous_mtu i)"
    by (auto simp: st_mtu_previous_mtu Let_def)
qed

text \<open>
  A lease that asks for an MTU of 1400 on the machine of the example, and the lease of
  the example, which asks for none while the interface is at its own MTU.
\<close>

theorem mtu_management_witness:
  "no_overrun env_ex opts_ex (lease_ex\<lparr>lease_mtu := 1400\<rparr>) \<and>
   run_result env_ex world_ex (Some opts_ex) (Some iface_ex) (Some (lease_ex\<lparr>lease_mtu := 1400\<rparr>))
     = Some 0 \<and>
   calls set_mtu_call (run_events env_ex world_ex (Some opts_ex) (Some iface_ex)
     (Some (lease_ex\<lparr>lease_mtu := 1400\<rparr>))) = [(1400, 0)] \<and>
   map_option previous_mtu (run_iface env_ex world_ex (Some opts_ex) (Some iface_ex)
     (Some (lease_ex\<lparr>lease_mtu := 1400\<rparr>))) = Some 1400 \<and>
   calls set_mtu_call (run_events env_ex world_ex (Some opts_ex) (Some iface_ex)
     (Some lease_ex)) = [] \<and>
   map_option previous_mtu (run_iface env_ex world_ex (Some opts_ex) (Some iface_ex)
     (Some lease_ex)) = Some 1500"
proof -
  let ?d = "lease_ex\<lparr>lease_mtu := 1400\<rparr>"
  have n: "no_overrun env_ex opts_ex ?d"
    by (simp add: no_overrun_def argv_fits_def reverse_name_fits_def env_ex_def opts_ex_def)
  note t = mtu_management [of env_ex opts_ex ?d world_ex iface_ex]
  from t n obtain rc where
    r: "run_result env_ex world_ex (Some opts_ex) (Some iface_ex) (Some ?d) = Some rc"
    by auto
  have h: "run_result env_ex world_ex (Some opts_ex) (Some iface_ex) (Some ?d) = Some 0"
    by code_simp
  have c: "calls set_mtu_call (run_events env_ex world_ex (Some opts_ex) (Some iface_ex)
     (Some ?d)) = [(1400, 0)]"
    by code_simp
  have a: "address ?d \<noteq> 0" "address lease_ex \<noteq> 0"
    by (simp_all add: lease_ex_def)
  from t [THEN conjunct2, rule_format, OF conjI, OF h a(1)] c
  have p: "map_option previous_mtu (run_iface env_ex world_ex (Some opts_ex) (Some iface_ex)
     (Some ?d)) = Some 1400"
    by (simp add: opts_ex_def iface_ex_def lease_ex_def)
  from mtu_management [of env_ex opts_ex lease_ex world_ex iface_ex, THEN conjunct2,
      rule_format, OF conjI, OF run_ex_result a(2)]
  have q: "calls set_mtu_call (run_events env_ex world_ex (Some opts_ex) (Some iface_ex)
     (Some lease_ex)) = [] \<and>
   map_option previous_mtu (run_iface env_ex world_ex (Some opts_ex) (Some iface_ex)
     (Some lease_ex)) = Some 1500"
    by (simp add: opts_ex_def iface_ex_def lease_ex_def)
  from n h c p q show ?thesis by simp
qed

text \<open>
  C8 as stated fails: when \<^verbatim>\<open>set_mtu\<close> fails, the target it was called with is not
  remembered; the previous MTU stays 1500.
\<close>

theorem mtu_management_counterexample:
  "domtu opts_ex \<and> address (lease_ex\<lparr>lease_mtu := 1400\<rparr>) \<noteq> 0 \<and>
   calls set_mtu_call (run_events (env_ex\<lparr>set_mtu_res := (\<lambda>tr n m. -1)\<rparr>) world_ex
     (Some opts_ex) (Some iface_ex) (Some (lease_ex\<lparr>lease_mtu := 1400\<rparr>))) = [(1400, -1)] \<and>
   map_option previous_mtu (run_iface (env_ex\<lparr>set_mtu_res := (\<lambda>tr n m. -1)\<rparr>) world_ex
     (Some opts_ex) (Some iface_ex) (Some (lease_ex\<lparr>lease_mtu := 1400\<rparr>))) = Some 1500"
  by code_simp

text \<open>
  The same step with an interface whose own MTU is unknown (zero) and a lease without
  an MTU: \<^verbatim>\<open>set_mtu\<close> is called with zero. The branch for a lost lease tests
  \<^verbatim>\<open>iface->mtu\<close> before restoring it; this one does not.
\<close>

lemma set_mtu_zero_example:
  "calls set_mtu_call (run_events env_ex world_ex (Some opts_ex)
     (Some (iface_ex\<lparr>mtu := 0, previous_mtu := 1400\<rparr>)) (Some lease_ex)) = [(0, 0)]"
  by code_simp


subsection \<open>Routes\<close>

lemma st_removed_del_route_calls:
  "calls del_route_call (trace (st_removed w opts i d)) =
   calls del_route_call (trace w) @
   map (\<lambda>r. (r, metric opts))
     (filter (\<lambda>r. (destination r \<noteq> 0 \<or> dogateway opts) \<and>
                   \<not> (address d \<noteq> 0 \<and> r \<in> set (routes d))) (previous_routes i))"
  by (simp add: st_removed_def remove_old_routes_trace calls_def comp_def)

lemma replace_address_and_routes_trace:
  "trace (snd (replace_address_and_routes e w opts i d)) =
   trace (subnet_route e
            (if previous_address i \<noteq> address d \<and> previous_address i \<noteq> 0
             then emit (Del_address (name i) (previous_address i) (previous_netmask i)) w
             else w) opts i d) @
   route_loop_events e
     (trace (subnet_route e
            (if previous_address i \<noteq> address d \<and> previous_address i \<noteq> 0
             then emit (Del_address (name i) (previous_address i) (previous_netmask i)) w
             else w) opts i d)) opts i (routes d)"
  by (simp add: replace_address_and_routes_def Let_def case_prod_beta add_new_routes_trace)

lemma replace_address_and_routes_del_route_calls:
  "calls del_route_call (trace (snd (replace_address_and_routes e w opts i d))) =
   calls del_route_call (trace w) @
   (if subnet_remetric e opts i d then [(subnet_of d, 0)] else [])"
  by (simp add: replace_address_and_routes_trace subnet_route_trace route_loop_events_calls
      subnet_remetric_def subnet_of_def Let_def)

text \<open>The history at the start of the loop over the lease's routes.\<close>

lemma replace_address_and_routes_add_route_calls:
  "\<exists>tr sub. calls add_route_call (trace (snd (replace_address_and_routes e w opts i d))) =
     calls add_route_call (trace w) @ sub @
     calls add_route_call (route_loop_events e tr opts i (routes d)) \<and>
     length sub = (if subnet_remetric e opts i d then 1 else 0) \<and>
     (routes d \<noteq> [] \<longrightarrow>
        previous_routes (fst (replace_address_and_routes e w opts i d)) =
        map fst (filter (\<lambda>(r, rc). rc \<ge> 0 \<or> r \<in> set (previous_routes i))
                   (calls add_route_call (route_loop_events e tr opts i (routes d)))))"
proof -
  let ?w1 = "if previous_address i \<noteq> address d \<and> previous_address i \<noteq> 0
             then emit (Del_address (name i) (previous_address i) (previous_netmask i)) w
             else w"
  let ?w2 = "subnet_route e ?w1 opts i d"
  let ?sub = "if subnet_remetric e opts i d
    then [(subnet_of d, add_route_res e (trace ?w1) (name i) (subnet_of d) (metric opts))]
    else []"
  have "calls add_route_call (trace ?w2) = calls add_route_call (trace w) @ ?sub"
    by (simp add: subnet_route_trace subnet_remetric_def subnet_of_def Let_def)
  then have "calls add_route_call (trace (snd (replace_address_and_routes e w opts i d))) =
     calls add_route_call (trace w) @ ?sub @
     calls add_route_call (route_loop_events e (trace ?w2) opts i (routes d))"
    by (simp only: replace_address_and_routes_trace calls_simps append_assoc)
  moreover have "length ?sub = (if subnet_remetric e opts i d then 1 else 0)"
    by simp
  moreover have "routes d \<noteq> [] \<longrightarrow>
        previous_routes (fst (replace_address_and_routes e w opts i d)) =
        map fst (filter (\<lambda>(r, rc). rc \<ge> 0 \<or> r \<in> set (previous_routes i))
                   (calls add_route_call (route_loop_events e (trace ?w2) opts i (routes d))))"
    by (simp add: fst_replace_address_and_routes add_new_routes_kept)
  ultimately show ?thesis by blast
qed

lemma previous_routes_unchanged_without_routes:
  "routes d = [] \<Longrightarrow>
   previous_routes (fst (replace_address_and_routes e w opts i d)) = previous_routes i"
  by (simp add: fst_replace_address_and_routes)


lemma route_loop_events_name:
  "name i = name j \<Longrightarrow> route_loop_events e tr opts i rs = route_loop_events e tr opts j rs"
  by (induction rs arbitrary: tr) (simp_all add: Let_def)

lemma st_routes_route_calls:
  "\<exists>tr sub.
     calls add_route_call (trace (snd (st_routes e w opts i d))) =
       calls add_route_call (trace w) @ sub @
       calls add_route_call (route_loop_events e tr opts i (routes d)) \<and>
     length sub = (if subnet_remetric e opts i d then 1 else 0) \<and>
     (routes d \<noteq> [] \<longrightarrow>
        previous_routes (fst (st_routes e w opts i d)) =
        map fst (filter (\<lambda>(r, rc). rc \<ge> 0 \<or> r \<in> set (previous_routes i))
                   (calls add_route_call (route_loop_events e tr opts i (routes d)))))"
proof -
  let ?j = "fst (st_mtu e w opts i d)"
  have n: "name ?j = name i" by simp
  have s: "subnet_remetric e opts ?j d = subnet_remetric e opts i d"
    by (simp add: subnet_remetric_def)
  have c: "calls add_route_call (trace (snd (st_address e w opts i d))) =
      calls add_route_call (trace w)"
    by (simp add: calls_st_address calls_st_mtu calls_st_removed)
  from replace_address_and_routes_add_route_calls
    [of e "snd (st_address e w opts i d)" opts ?j d]
  show ?thesis
    unfolding st_routes_def [symmetric] route_loop_events_name [OF n] s c
    by simp
qed

lemma st_routes_del_route_calls:
  "calls del_route_call (trace (snd (st_routes e w opts i d))) =
   calls del_route_call (trace (st_removed w opts i d)) @
   (if subnet_remetric e opts i d then [(subnet_of d, 0)] else [])"
  by (simp add: st_routes_def replace_address_and_routes_del_route_calls calls_st_address
      calls_st_mtu subnet_remetric_def)

text \<open>What a successful call with a lease address does to the routes.\<close>

lemma applied_routes:
  assumes "configure_lease e w opts i d = Some (rc, i', w')" and "address d \<noteq> 0"
    and "rc = 0" and tr: "trace w' = trace w @ evs"
  shows "map fst (loop_add_route_calls e opts i d evs) =
           filter (\<lambda>r. \<not> default_skipped opts r) (routes d) \<and>
         previous_routes i' =
           (if routes d = [] then previous_routes i
            else map fst (filter (\<lambda>(r, rc). rc \<ge> 0 \<or> r \<in> set (previous_routes i))
                            (loop_add_route_calls e opts i d evs)))"
  using assms(1)
proof (cases rule: configure_lease_cases)
  case lost
  with assms(2) show ?thesis by simp
next
  case failed
  with assms(3) show ?thesis by simp
next
  case (applied w5 w6)
  obtain tr0 sub where
    a: "calls add_route_call (trace (snd (st_routes e w opts i d))) =
       calls add_route_call (trace w) @ sub @
       calls add_route_call (route_loop_events e tr0 opts i (routes d))"
    and l: "length sub = (if subnet_remetric e opts i d then 1 else 0)"
    and p: "routes d \<noteq> [] \<longrightarrow>
        previous_routes (fst (st_routes e w opts i d)) =
        map fst (filter (\<lambda>(r, rc). rc \<ge> 0 \<or> r \<in> set (previous_routes i))
                   (calls add_route_call (route_loop_events e tr0 opts i (routes d))))"
    using st_routes_route_calls [of e w opts i d] by blast
  have "calls add_route_call (trace w') = calls add_route_call (trace w) @ (sub @
       calls add_route_call (route_loop_events e tr0 opts i (routes d)))"
    using info_and_hook_calls [OF applied(5), of add_route_call]
      calls_hostname_step [OF applied(4), of add_route_call]
      calls_st_services [OF applied(3), of add_route_call]
    by (simp add: a)
  from calls_run [OF tr this] l
  have loop: "loop_add_route_calls e opts i d evs =
      calls add_route_call (route_loop_events e tr0 opts i (routes d))"
    by (simp add: loop_add_route_calls_def)
  have pr: "previous_routes i' = previous_routes (fst (st_routes e w opts i d))"
    using info_and_hook_result [OF applied(5)] by (simp split: if_splits)
  have "routes d = [] \<Longrightarrow> previous_routes (fst (st_routes e w opts i d)) = previous_routes i"
    by (simp add: st_routes_def previous_routes_unchanged_without_routes)
  with p pr show ?thesis
    by (simp add: loop route_loop_events_subjects default_skipped_def)
qed

text \<open>
  C1, as amended. In a call with a lease address, a route that is both in the previous
  set and in the lease is not removed by the removal of old routes: the only call of
  \<^verbatim>\<open>del_route\<close> that can name it is the one of the Linux subnet re-metric step, with
  metric 0, when the route is the lease's subnet route. When the call succeeds and the
  route is not a default route left out for lack of gateway management,
  \<^verbatim>\<open>add_route\<close> is called for it again.
\<close>

theorem route_non_flap:
  assumes "run_result e w (Some opts) (Some i) (Some d) = Some rc" and "address d \<noteq> 0"
    and "r \<in> set (previous_routes i)" and "r \<in> set (routes d)"
  shows "(\<forall>c \<in> set (calls del_route_call (run_events e w (Some opts) (Some i) (Some d))).
            fst c = r \<longrightarrow> subnet_remetric e opts i d \<and> r = subnet_of d \<and> snd c = 0) \<and>
         (rc = 0 \<and> \<not> default_skipped opts r \<longrightarrow>
            r \<in> fst ` set (calls add_route_call
                             (run_events e w (Some opts) (Some i) (Some d))))"
proof -
  from assms(1) obtain i' w' where c: "configure_lease e w opts i d = Some (rc, i', w')"
    and ev: "run_events e w (Some opts) (Some i) (Some d) = new_events w w'"
    and tr: "trace w' = trace w @ new_events w w'"
    by (rule run_cases)
  let ?stale = "map (\<lambda>r. (r, metric opts))
     (filter (\<lambda>r. (destination r \<noteq> 0 \<or> dogateway opts) \<and>
                   \<not> (address d \<noteq> 0 \<and> r \<in> set (routes d))) (previous_routes i))"
  let ?sub = "if subnet_remetric e opts i d then [(subnet_of d, 0::int)] else []"
  have stale: "\<forall>c \<in> set ?stale. fst c \<noteq> r"
    using assms(2,4) by auto
  have "\<exists>q. calls del_route_call (trace w') = calls del_route_call (trace w) @ ?stale @ q \<and>
      set q \<subseteq> set ?sub"
    using c
  proof (cases rule: configure_lease_cases)
    case lost
    with assms(2) show ?thesis by simp
  next
    case failed
    then show ?thesis
      by (simp add: calls_st_address calls_st_mtu st_removed_del_route_calls)
  next
    case (applied w5 w6)
    have "calls del_route_call (trace w') = calls del_route_call (trace w) @ ?stale @ ?sub"
      using info_and_hook_calls [OF applied(5), of del_route_call]
        calls_hostname_step [OF applied(4), of del_route_call]
        calls_st_services [OF applied(3), of del_route_call]
      by (simp add: st_routes_del_route_calls st_removed_del_route_calls)
    then show ?thesis by blast
  qed
  then obtain q where
    "calls del_route_call (trace w') = calls del_route_call (trace w) @ (?stale @ q)"
    and q: "set q \<subseteq> set ?sub"
    by auto
  from calls_run [OF tr this(1)]
  have dels: "calls del_route_call (new_events w w') = ?stale @ q" .
  have 1: "\<forall>c \<in> set (calls del_route_call (new_events w w')).
            fst c = r \<longrightarrow> subnet_remetric e opts i d \<and> r = subnet_of d \<and> snd c = 0"
    unfolding dels using stale q by (auto split: if_splits)
  have 2: "rc = 0 \<and> \<not> default_skipped opts r \<longrightarrow>
      r \<in> fst ` set (calls add_route_call (new_events w w'))"
  proof
    assume h: "rc = 0 \<and> \<not> default_skipped opts r"
    from applied_routes [OF c assms(2) _ tr] h
    have "map fst (loop_add_route_calls e opts i d (new_events w w')) =
           filter (\<lambda>r. \<not> default_skipped opts r) (routes d)"
      by simp
    with h assms(4) have "r \<in> set (map fst (loop_add_route_calls e opts i d (new_events w w')))"
      by simp
    then have "r \<in> fst ` set (loop_add_route_calls e opts i d (new_events w w'))"
      by simp
    then show "r \<in> fst ` set (calls add_route_call (new_events w w'))"
      unfolding loop_add_route_calls_def using set_drop_subset by fastforce
  qed
  from 1 2 show ?thesis by (simp only: ev) 
qed

theorem route_non_flap_witness:
  "r_default \<in> set (previous_routes iface_ex) \<and> r_default \<in> set (routes lease_ex) \<and>
   \<not> default_skipped opts_ex r_default \<and>
   r_default \<notin> fst ` set (calls del_route_call
     (run_events env_ex world_ex (Some opts_ex) (Some iface_ex) (Some lease_ex))) \<and>
   r_default \<in> fst ` set (calls add_route_call
     (run_events env_ex world_ex (Some opts_ex) (Some iface_ex) (Some lease_ex)))"
proof -
  have a: "address lease_ex \<noteq> 0" by (simp add: lease_ex_def)
  have p: "r_default \<in> set (previous_routes iface_ex)" by (simp add: iface_ex_def)
  have n: "r_default \<in> set (routes lease_ex)" by (simp add: lease_ex_def)
  have s: "\<not> default_skipped opts_ex r_default" by (simp add: default_skipped_def opts_ex_def)
  have m: "\<not> subnet_remetric env_ex opts_ex iface_ex lease_ex"
    by (simp add: subnet_remetric_def opts_ex_def)
  from route_non_flap [OF run_ex_result a p n] s m p n show ?thesis
    by auto
qed

text \<open>
  C1 as stated fails: the default route is in the previous set and in the lease, and
  \<^verbatim>\<open>add_route\<close> is called for it (and fails, the route being there already).
\<close>

theorem route_non_flap_counterexample:
  "address lease_ex \<noteq> 0 \<and> r_default \<in> set (previous_routes iface_ex) \<and>
   r_default \<in> set (routes lease_ex) \<and>
   (r_default, -1) \<in> set (calls add_route_call
     (run_events env_ex world_ex (Some opts_ex) (Some iface_ex) (Some lease_ex)))"
  by code_simp


text \<open>
  What the code does with the previous routes on a successful call with a lease
  address: the loop calls \<^verbatim>\<open>add_route\<close> for the lease's routes that are not default
  routes left out, in order; with at least one route in the lease the previous set
  becomes those routes whose call gave 0 or more or which are in the old set, and with
  no route in the lease the previous set stays as it was.
\<close>

lemma previous_routes_after:
  assumes "run_result e w (Some opts) (Some i) (Some d) = Some 0" and "address d \<noteq> 0"
  shows "map fst (loop_add_route_calls e opts i d
                    (run_events e w (Some opts) (Some i) (Some d))) =
           filter (\<lambda>r. \<not> default_skipped opts r) (routes d) \<and>
         map_option previous_routes (run_iface e w (Some opts) (Some i) (Some d)) =
           Some (if routes d = [] then previous_routes i
                 else map fst (filter (\<lambda>(r, rc). rc \<ge> 0 \<or> r \<in> set (previous_routes i))
                        (loop_add_route_calls e opts i d
                           (run_events e w (Some opts) (Some i) (Some d)))))"
proof -
  from assms(1) obtain i' w' where c: "configure_lease e w opts i d = Some (0, i', w')"
    and ev: "run_events e w (Some opts) (Some i) (Some d) = new_events w w'"
    and ri: "run_iface e w (Some opts) (Some i) (Some d) = Some i'"
    and tr: "trace w' = trace w @ new_events w w'"
    by (rule run_cases)
  from applied_routes [OF c assms(2) refl tr] show ?thesis
    by (simp add: ev ri)
qed

text \<open>
  C3. The claim is not met by the code for a lease that has an address and no routes:
  the first loop asks for the removal of both previous routes, and the previous set
  still holds them afterwards, because the replacement sits inside
  \<^verbatim>\<open>if (dhcp->routes)\<close>.
\<close>

theorem previous_routes_kept_without_routes:
  "address (lease_ex\<lparr>routes := []\<rparr>) \<noteq> 0 \<and>
   run_result env_ex world_ex (Some opts_ex) (Some iface_ex) (Some (lease_ex\<lparr>routes := []\<rparr>))
     = Some 0 \<and>
   map fst (calls del_route_call (run_events env_ex world_ex (Some opts_ex) (Some iface_ex)
     (Some (lease_ex\<lparr>routes := []\<rparr>)))) = [r_default, r_lan] \<and>
   map_option previous_routes (run_iface env_ex world_ex (Some opts_ex) (Some iface_ex)
     (Some (lease_ex\<lparr>routes := []\<rparr>))) = Some [r_default, r_lan]"
  by code_simp



subsection \<open>Hostname\<close>

lemma lookup_hostname_Some:
  "lookup_hostname e opts d = Some nh \<Longrightarrow>
   nh = (if dohostname opts \<and> hostname d = None
         then (case gethostbyaddr_res e (inet_ntoa (address d)) of
                 Some h_name \<Rightarrow> takeWhile (\<lambda>c. 32 < char_value e c) h_name
               | None \<Rightarrow> [])
         else [])"
  by (auto simp: lookup_hostname_def Let_def takeWhile_eq_take [symmetric]
      split: if_splits option.splits)

lemma hostname_step_sethostname_calls:
  assumes "hostname_step e w opts d = Some w'"
  shows "calls sethostname_call (trace w') = calls sethostname_call (trace w) @
     (let reverse = (if dohostname opts \<and> hostname d = None
                     then (case gethostbyaddr_res e (inet_ntoa (address d)) of
                             Some h_name \<Rightarrow> takeWhile (\<lambda>c. 32 < char_value e c) h_name
                           | None \<Rightarrow> [])
                     else []);
          candidate = (case hostname d of
                         Some h \<Rightarrow> take (HOSTNAME_MAX_LEN e - 1) h
                       | None \<Rightarrow> reverse);
          cur = gethostname_res e
      in if (dohostname opts \<or> cur = [] \<or> cur = ''(none)'' \<or> cur = ''localhost'') \<and>
            candidate \<noteq> []
         then [candidate] else [])"
proof -
  from assms obtain nh where l: "lookup_hostname e opts d = Some nh"
    and w': "w' = apply_hostname e w opts d nh"
    by (auto simp: hostname_step_def)
  show ?thesis
    unfolding w' apply_hostname_trace lookup_hostname_Some [OF l]
    by (simp add: Let_def split: option.splits)
qed

text \<open>
  C9, as amended. A call on a lease with an address returns whenever no buffer is
  overrun, in particular whenever the name found for the address, cut as below, fits
  the hostname buffer. On a successful call with a lease address: when hostname
  management is asked for and the lease has no hostname, the candidate is the name
  found for the address, up to but excluding its first byte that is not above 32 as a
  \<^verbatim>\<open>char\<close> (the space, the control characters below it and, where \<^verbatim>\<open>char\<close> is signed,
  the bytes from 128 on; not the byte 127), and empty when no name is found; a
  hostname in the lease takes its place (cut to the size of the buffer).
  \<^verbatim>\<open>sethostname\<close> is called, once and with the candidate, exactly when hostname
  management is asked for or the current hostname is empty, \<^verbatim>\<open>(none)\<close> or
  \<^verbatim>\<open>localhost\<close>, and the candidate is not empty.
\<close>

theorem hostname_determination:
  "(no_overrun e opts d \<longrightarrow> run_result e w (Some opts) (Some i) (Some d) \<noteq> None) \<and>
   (run_result e w (Some opts) (Some i) (Some d) = Some 0 \<and> address d \<noteq> 0 \<longrightarrow>
    calls sethostname_call (run_events e w (Some opts) (Some i) (Some d)) =
     (let reverse = (if dohostname opts \<and> hostname d = None
                     then (case gethostbyaddr_res e (inet_ntoa (address d)) of
                             Some h_name \<Rightarrow> takeWhile (\<lambda>c. 32 < char_value e c) h_name
                           | None \<Rightarrow> [])
                     else []);
          candidate = (case hostname d of
                         Some h \<Rightarrow> take (HOSTNAME_MAX_LEN e - 1) h
                       | None \<Rightarrow> reverse);
          cur = gethostname_res e
      in if (dohostname opts \<or> cur = [] \<or> cur = ''(none)'' \<or> cur = ''localhost'') \<and>
            candidate \<noteq> []
         then [candidate] else []))"
proof (intro conjI impI)
  assume "no_overrun e opts d"
  from run_returns [OF this, of w i]
  show "run_result e w (Some opts) (Some i) (Some d) \<noteq> None"
    by auto
next
  let ?calls = "let reverse = (if dohostname opts \<and> hostname d = None
                     then (case gethostbyaddr_res e (inet_ntoa (address d)) of
                             Some h_name \<Rightarrow> takeWhile (\<lambda>c. 32 < char_value e c) h_name
                           | None \<Rightarrow> [])
                     else []);
          candidate = (case hostname d of
                         Some h \<Rightarrow> take (HOSTNAME_MAX_LEN e - 1) h
                       | None \<Rightarrow> reverse);
          cur = gethostname_res e
      in if (dohostname opts \<or> cur = [] \<or> cur = ''(none)'' \<or> cur = ''localhost'') \<and>
            candidate \<noteq> []
         then [candidate] else []"
  assume a: "run_result e w (Some opts) (Some i) (Some d) = Some 0 \<and> address d \<noteq> 0"
  then have r: "run_result e w (Some opts) (Some i) (Some d) = Some 0"
    and n: "address d \<noteq> 0"
    by simp_all
  from r obtain i' w' where c: "configure_lease e w opts i d = Some (0, i', w')"
    and ev: "run_events e w (Some opts) (Some i) (Some d) = new_events w w'"
    and tr: "trace w' = trace w @ new_events w w'"
    by (rule run_cases)
  from c show "calls sethostname_call (run_events e w (Some opts) (Some i) (Some d)) = ?calls"
  proof (cases rule: configure_lease_cases)
    case lost
    with n show ?thesis by simp
  next
    case failed
    then show ?thesis by simp
  next
    case (applied w5 w6)
    have "calls sethostname_call (trace w5) = calls sethostname_call (trace w)"
      using calls_st_services [OF applied(3), of sethostname_call]
      by (simp add: calls_st_routes calls_st_address calls_st_mtu calls_st_removed)
    with hostname_step_sethostname_calls [OF applied(4)]
      info_and_hook_calls [OF applied(5), of sethostname_call]
    have "calls sethostname_call (trace w') = calls sethostname_call (trace w) @ ?calls"
      by simp
    from calls_run [OF tr this] show ?thesis by (simp only: ev)
  qed
qed

text \<open>
  The machine of the example with hostname management on, where the address resolves
  to a name followed by a space and more; and the same machine with hostname
  management off and the current hostname \<^verbatim>\<open>localhost\<close>, where the lease carries a
  hostname of its own.
\<close>

theorem hostname_determination_witness:
  "no_overrun (env_ex\<lparr>gethostbyaddr_res := (\<lambda>a. Some ''box.example.org extra'')\<rparr>)
     (opts_ex\<lparr>dohostname := True\<rparr>) lease_ex \<and>
   run_result (env_ex\<lparr>gethostbyaddr_res := (\<lambda>a. Some ''box.example.org extra'')\<rparr>) world_ex
     (Some (opts_ex\<lparr>dohostname := True\<rparr>)) (Some iface_ex) (Some lease_ex) = Some 0 \<and>
   address lease_ex \<noteq> 0 \<and>
   calls sethostname_call
     (run_events (env_ex\<lparr>gethostbyaddr_res := (\<lambda>a. Some ''box.example.org extra'')\<rparr>) world_ex
        (Some (opts_ex\<lparr>dohostname := True\<rparr>)) (Some iface_ex) (Some lease_ex)) =
     [''box.example.org''] \<and>
   calls sethostname_call
     (run_events (env_ex\<lparr>gethostname_res := ''localhost''\<rparr>) world_ex
        (Some opts_ex) (Some iface_ex) (Some (lease_ex\<lparr>hostname := Some ''leased''\<rparr>))) =
     [''leased'']"
proof -
  let ?e = "env_ex\<lparr>gethostbyaddr_res := (\<lambda>a. Some ''box.example.org extra'')\<rparr>"
  let ?o = "opts_ex\<lparr>dohostname := True\<rparr>"
  let ?e2 = "env_ex\<lparr>gethostname_res := ''localhost''\<rparr>"
  let ?d2 = "lease_ex\<lparr>hostname := Some ''leased''\<rparr>"
  have n: "no_overrun ?e ?o lease_ex"
    by (simp add: no_overrun_def argv_fits_def reverse_name_fits_def env_ex_def opts_ex_def
        lease_ex_def char_value_def)
  note t = hostname_determination [of ?e ?o lease_ex world_ex iface_ex]
  note t2 = hostname_determination [of ?e2 opts_ex ?d2 world_ex iface_ex]
  from t n have "run_result ?e world_ex (Some ?o) (Some iface_ex) (Some lease_ex) \<noteq> None"
    by blast
  have h: "run_result ?e world_ex (Some ?o) (Some iface_ex) (Some lease_ex) = Some 0"
    by code_simp
  have h2: "run_result ?e2 world_ex (Some opts_ex) (Some iface_ex) (Some ?d2) = Some 0"
    by code_simp
  have a: "address lease_ex \<noteq> 0" "address ?d2 \<noteq> 0"
    by (simp_all add: lease_ex_def)
  have c: "calls sethostname_call
     (run_events ?e world_ex (Some ?o) (Some iface_ex) (Some lease_ex)) = [''box.example.org'']"
    by code_simp
  from t2 [THEN conjunct2, rule_format, OF conjI, OF h2 a(2)]
  have "calls sethostname_call
     (run_events ?e2 world_ex (Some opts_ex) (Some iface_ex) (Some ?d2)) = [''leased'']"
    by (simp add: env_ex_def opts_ex_def lease_ex_def)
  with n h a c t [THEN conjunct2, rule_format, OF conjI, OF h a(1)] show ?thesis
    by simp
qed

text \<open>
  C9 as stated fails: the name found for the address has the control character 127
  (DEL) after its first letter, and the hostname is set to all three bytes, not to the
  part before the control character.
\<close>

theorem hostname_determination_counterexample:
  "dohostname (opts_ex\<lparr>dohostname := True\<rparr>) \<and> hostname lease_ex = None \<and>
   calls sethostname_call
     (run_events (env_ex\<lparr>gethostbyaddr_res := (\<lambda>a. Some [CHR ''a'', CHR 0x7F, CHR ''b''])\<rparr>)
        world_ex (Some (opts_ex\<lparr>dohostname := True\<rparr>)) (Some iface_ex) (Some lease_ex)) =
     [[CHR ''a'', CHR 0x7F, CHR ''b'']]"
  by code_simp


subsection \<open>The info file\<close>










lemma lacks_Some [simp]: "lacks k (Some y) \<longleftrightarrow> k \<notin> fst ` set y"
  by (simp add: lacks_def)











subsection \<open>The time-service file\<close>

text \<open>
  C4. The claim is not met by the code for a file that names one of the lease's
  servers on two lines and the other on none: each of the two lines counts against the
  number of servers to find, so \<^verbatim>\<open>_make_ntp\<close> finds the file up to date, returns 0
  (no restart) and leaves the file as it is, without a \<^verbatim>\<open>server\<close> line for
  192.0.2.2.
\<close>

theorem ntp_duplicate_line_counts_twice:
  "map inet_ntoa (ntpservers lease_ntp) = [''192.0.2.1'', ''192.0.2.2''] \<and>
   files world_ntp ''/etc/ntp.conf'' =
     Some (''server 192.0.2.1'' @ [newline] @ ''server 192.0.2.1'' @ [newline]) \<and>
   fst (make_ntp_file env_ex world_ntp ''/etc/ntp.conf'' ''eth0'' lease_ntp) = 0 \<and>
   files (snd (make_ntp_file env_ex world_ntp ''/etc/ntp.conf'' ''eth0'' lease_ntp))
     ''/etc/ntp.conf'' =
     Some (''server 192.0.2.1'' @ [newline] @ ''server 192.0.2.1'' @ [newline]) \<and>
   trace (snd (make_ntp_file env_ex world_ntp ''/etc/ntp.conf'' ''eth0'' lease_ntp)) =
     [Fopen ''/etc/ntp.conf'' ''r'' True]"
  by code_simp

text \<open>
  With each of the two servers on a line of its own the file is left alone as well, and
  with only one line for the first server it is written anew.
\<close>

lemma ntp_file_examples:
  "fst (make_ntp_file env_ex
          (world_ntp\<lparr>files := (\<lambda>p. Some (''server 192.0.2.2'' @ [newline] @
                                          ''server 192.0.2.1'' @ [newline]))\<rparr>)
          ''/etc/ntp.conf'' ''eth0'' lease_ntp) = 0 \<and>
   fst (make_ntp_file env_ex
          (world_ntp\<lparr>files := (\<lambda>p. Some (''server 192.0.2.1'' @ [newline]))\<rparr>)
          ''/etc/ntp.conf'' ''eth0'' lease_ntp) = 1 \<and>
   files (snd (make_ntp_file env_ex
          (world_ntp\<lparr>files := (\<lambda>p. Some (''server 192.0.2.1'' @ [newline]))\<rparr>)
          ''/etc/ntp.conf'' ''eth0'' lease_ntp)) ''/etc/ntp.conf'' =
     Some (ntp_text env_ex ''/etc/ntp.conf'' ''eth0'' lease_ntp)"
  by code_simp

end
